theory Spec2Isabelle
  imports Complex_Main
begin

unbundle bit_operations_syntax

section \<open>Values shared by the converters\<close>

text \<open>
  The exceptions the converters can raise. \<open>ValueError\<close> is what the source raises on
  purpose; \<open>UnboundLocalError\<close> is Python's error on reading a local variable that no
  assignment has bound yet; \<open>IndexError\<close> and \<open>OverflowError\<close> come from indexing a
  string and from \<open>int()\<close> of an infinite float.
\<close>

datatype error = ValueError | UnboundLocalError | IndexError | OverflowError

text \<open>
  A Python \<open>float\<close>: a finite value (every finite double is a rational number), an
  infinity (\<open>True\<close> for the negative one) or NaN.
\<close>

datatype pyfloat = Finite rat | Infinity bool | NaN

text \<open>
  One line of a trace is an f-string. It is kept as the list of its pieces: literal text,
  an interpolated integer or string with its minimum field width (0 when the source gives
  none), \<open>bin(x)[2:]\<close>, \<open>hex(x)[2:].upper()\<close>, a string of code points, and a float with
  an optional \<open>width.precision\<close> of the \<open>f\<close> format.
\<close>

datatype frag =
    Lit string
  | IntF int nat
  | StrF string nat
  | BinF int
  | HexF int
  | UniF "nat list"
  | FloatF pyfloat "(nat \<times> nat) option"

type_synonym step = "frag list"

text \<open>
  Every converter returns the bare value, or the pair of the value and the list of steps
  when \<open>show_steps\<close> is set.
\<close>

datatype 'a ret = Plain 'a | Traced 'a "step list"

fun value_of :: "'a ret \<Rightarrow> 'a" where
  "value_of (Plain v) = v"
| "value_of (Traced v steps) = v"

definition result_of :: "error + 'a ret \<Rightarrow> error + 'a" where
  "result_of r = (case r of Inl e \<Rightarrow> Inl e | Inr v \<Rightarrow> Inr (value_of v))"

fun steps_of :: "'a ret \<Rightarrow> step list" where
  "steps_of (Plain v) = []"
| "steps_of (Traced v steps) = steps"

definition HEX_DIGITS :: string where
  "HEX_DIGITS = ''0123456789ABCDEF''"

definition BASE_DIGITS :: string where
  "BASE_DIGITS = ''0123456789ABCDEF''"

definition MAX_BASE :: int where
  "MAX_BASE = 16"

definition MIN_BASE :: int where
  "MIN_BASE = 2"

section \<open>Character codes\<close>

text \<open>
  A Python string is a sequence of code points; for the two character converters it is a
  \<open>nat list\<close>. \<open>chr\<close> accepts every integer of \<open>range(0x110000)\<close>, the surrogates
  included, raises ValueError on the other values of a C \<open>int\<close> and OverflowError
  beyond. \<open>ord\<close> is applied to strings of length one only.
\<close>

definition chr_py :: "int \<Rightarrow> error + nat list" where
  "chr_py i =
     (if 0 \<le> i \<and> i < 1114112 then Inr [nat i]
      else if - 2147483648 \<le> i \<and> i \<le> 2147483647 then Inl ValueError
      else Inl OverflowError)"

fun ord_py :: "nat list \<Rightarrow> int" where
  "ord_py [c] = int c"
| "ord_py cs = 0"

definition char_to_ascii :: "nat list \<Rightarrow> bool \<Rightarrow> error + int ret" where
  "char_to_ascii char show_steps =
     (if length char \<noteq> 1 then Inl ValueError
      else
        let code_point = ord_py char
        in if show_steps then
             Inr (Traced code_point
               [[Lit ''Character: '', Lit [CHR 0x27], UniF char, Lit [CHR 0x27]],
                [Lit ''ASCII/Unicode code point: '', IntF code_point 0],
                [Lit ''Binary representation: '', BinF code_point],
                [Lit ''Hexadecimal representation: '', HexF code_point]])
           else Inr (Plain code_point))"

definition ascii_to_char :: "int \<Rightarrow> bool \<Rightarrow> error + (nat list) ret" where
  "ascii_to_char code_point show_steps =
     (if \<not> (0 \<le> code_point \<and> code_point \<le> 1114111) then Inl ValueError
      else
        case chr_py code_point of
          Inl e \<Rightarrow> (if e = ValueError then Inl ValueError else Inl e)
        | Inr char \<Rightarrow>
            if show_steps then
              Inr (Traced char
                [[Lit ''Code point: '', IntF code_point 0],
                 [Lit ''Character: '', Lit [CHR 0x27], UniF char, Lit [CHR 0x27]],
                 [Lit ''Binary representation: '', BinF code_point],
                 [Lit ''Hexadecimal representation: '', HexF code_point]])
            else Inr (Plain char))"

section \<open>Base sniffer\<close>

text \<open>
  Numerals are strings of 8-bit characters. \<open>str.strip()\<close> removes the white space of
  \<open>str.isspace\<close> at both ends: code points 9 to 13, 28 to 32, 133 and 160 in this range.
  \<open>str.lower()\<close> and \<open>str.upper()\<close> are modelled on the ASCII letters; the characters
  above 127 are never digits or prefix letters, before or after a change of case.
\<close>

definition isspace :: "char \<Rightarrow> bool" where
  "isspace c =
     (let n = of_char c :: nat
      in (9 \<le> n \<and> n \<le> 13) \<or> (28 \<le> n \<and> n \<le> 32) \<or> n = 133 \<or> n = 160)"

definition strip :: "string \<Rightarrow> string" where
  "strip s = rev (dropWhile isspace (rev (dropWhile isspace s)))"

definition lower_char :: "char \<Rightarrow> char" where
  "lower_char c =
     (let n = of_char c :: nat in if 65 \<le> n \<and> n \<le> 90 then char_of (n + 32) else c)"

definition upper_char :: "char \<Rightarrow> char" where
  "upper_char c =
     (let n = of_char c :: nat in if 97 \<le> n \<and> n \<le> 122 then char_of (n - 32) else c)"

definition lower :: "string \<Rightarrow> string" where
  "lower s = map lower_char s"

definition upper :: "string \<Rightarrow> string" where
  "upper s = map upper_char s"

definition startswith :: "string \<Rightarrow> string \<Rightarrow> bool" where
  "startswith s p = (take (length p) s = p)"

text \<open>
  \<open>re.fullmatch\<close> with a pattern \<open>[cls]+\<close>: the whole string is one or more characters of
  the class. With \<open>-?\<close> in front, one leading minus sign may come first.
\<close>

definition fullmatch_class :: "string \<Rightarrow> string \<Rightarrow> bool" where
  "fullmatch_class cls s = (s \<noteq> [] \<and> list_all (\<lambda>c. c \<in> set cls) s)"

definition fullmatch_signed :: "string \<Rightarrow> string \<Rightarrow> bool" where
  "fullmatch_signed cls s =
     (case s of
        [] \<Rightarrow> False
      | c # cs \<Rightarrow> (c = CHR ''-'' \<and> fullmatch_class cls cs) \<or> fullmatch_class cls s)"

definition detect_base :: "string \<Rightarrow> int" where
  "detect_base number_str0 =
     (let number_str = strip number_str0
      in if startswith (lower number_str) ''0b'' then 2
         else if startswith (lower number_str) ''0o'' then 8
         else if startswith (lower number_str) ''0x'' then 16
         else if fullmatch_signed ''01'' number_str then 2
         else if fullmatch_signed ''01234567'' number_str then 8
         else if fullmatch_signed ''0123456789'' number_str then 10
         else if fullmatch_signed ''0123456789ABCDEFabcdef'' number_str then 16
         else 0)"

definition body_of :: "string \<Rightarrow> string" where
  "body_of t = (if startswith t ''-'' then tl t else t)"

text \<open>
  The sniffer as the specification words it, written without the functions above. White
  space is the twelve characters listed; trimming removes it at both ends. A string is
  marked for a base when it starts with the digit 0 and the small or the capital letter
  of the base. The body of a string is the string without one leading minus sign, and a
  body is classified by the narrowest digit set that holds all its characters.
\<close>

definition white_space :: string where
  "white_space =
     [CHR 0x09, CHR 0x0A, CHR 0x0B, CHR 0x0C, CHR 0x0D, CHR 0x1C, CHR 0x1D, CHR 0x1E,
      CHR 0x1F, CHR 0x20, CHR 0x85, CHR 0xA0]"

fun trim_left :: "string \<Rightarrow> string" where
  "trim_left [] = []"
| "trim_left (c # cs) = (if c \<in> set white_space then trim_left cs else c # cs)"

definition trimmed :: "string \<Rightarrow> string" where
  "trimmed s = rev (trim_left (rev (trim_left s)))"

fun marked :: "char \<Rightarrow> char \<Rightarrow> string \<Rightarrow> bool" where
  "marked small capital (c0 # c1 # rest) = (c0 = CHR ''0'' \<and> (c1 = small \<or> c1 = capital))"
| "marked small capital t = False"

fun unsigned :: "string \<Rightarrow> string" where
  "unsigned [] = []"
| "unsigned (c # cs) = (if c = CHR ''-'' then cs else c # cs)"

definition all_digits :: "string \<Rightarrow> string \<Rightarrow> bool" where
  "all_digits cls b = (b \<noteq> [] \<and> set b \<subseteq> set cls)"

definition detect_base_spec :: "string \<Rightarrow> int" where
  "detect_base_spec s =
     (let t = trimmed s; b = unsigned t
      in if marked CHR ''b'' CHR ''B'' t then 2
         else if marked CHR ''o'' CHR ''O'' t then 8
         else if marked CHR ''x'' CHR ''X'' t then 16
         else if all_digits ''01'' b then 2
         else if all_digits ''01234567'' b then 8
         else if all_digits ''0123456789'' b then 10
         else if all_digits ''0123456789ABCDEFabcdef'' b then 16
         else 0)"

section \<open>Python primitives used by the integer converters\<close>

text \<open>
  \<open>s[i]\<close> on a string: a negative index counts from the end, an index out of range raises
  IndexError. \<open>s.index(c)\<close> is the first position of \<open>c\<close>, or ValueError. \<open>int(c)\<close> of a
  one-character string is the value of a decimal digit, or ValueError. \<open>str(n)\<close> is the
  decimal numeral of \<open>n\<close>. \<open>n.bit_length()\<close> is the number of bits of \<open>|n|\<close>.
\<close>

definition index_py :: "string \<Rightarrow> int \<Rightarrow> error + char" where
  "index_py s i =
     (if 0 \<le> i \<and> i < int (length s) then Inr (s ! nat i)
      else if - int (length s) \<le> i \<and> i < 0 then Inr (s ! nat (int (length s) + i))
      else Inl IndexError)"

fun str_index :: "string \<Rightarrow> char \<Rightarrow> error + int" where
  "str_index [] c = Inl ValueError"
| "str_index (x # xs) c =
     (if x = c then Inr 0
      else case str_index xs c of Inl e \<Rightarrow> Inl e | Inr i \<Rightarrow> Inr (i + 1))"

definition int_of_char :: "char \<Rightarrow> error + int" where
  "int_of_char c =
     (let n = of_char c :: nat
      in if 48 \<le> n \<and> n \<le> 57 then Inr (int n - 48) else Inl ValueError)"

fun str_nat :: "nat \<Rightarrow> string" where
  "str_nat n =
     (if n < 10 then [''0123456789'' ! n]
      else str_nat (n div 10) @ [''0123456789'' ! (n mod 10)])"

definition str_int :: "int \<Rightarrow> string" where
  "str_int i = (if i < 0 then CHR ''-'' # str_nat (nat (- i)) else str_nat (nat i))"

fun bit_length_nat :: "nat \<Rightarrow> nat" where
  "bit_length_nat n = (if n = 0 then 0 else Suc (bit_length_nat (n div 2)))"

definition bit_length :: "int \<Rightarrow> nat" where
  "bit_length n = bit_length_nat (nat \<bar>n\<bar>)"

section \<open>Decimal to any base\<close>

text \<open>
  The local \<open>step_num\<close> is assigned only under \<open>if show_steps\<close>, so it is an optional
  value: \<open>None\<close> while no assignment has run. Reading it then raises UnboundLocalError,
  and the last statement of the loop body, \<open>step_num += 1 if show_steps else 0\<close>, reads it
  in every iteration.

  The loop \<open>while working_n\<close> is entered with \<open>working_n = abs(n) > 0\<close> and a base that
  passed the range check; on these values \<open>working_n \<le> 0 \<or> base < 2\<close> is the loop's
  exit test \<open>working_n == 0\<close>.
\<close>

definition dec_to_base_row :: "nat \<Rightarrow> int \<Rightarrow> int \<Rightarrow> int \<Rightarrow> char \<Rightarrow> step" where
  "dec_to_base_row step_num working_n base remainder digit =
     [IntF (int step_num) 4, Lit '' | '', IntF working_n 7, Lit '' | '', IntF base 15,
      Lit '' | '', IntF remainder 9, Lit '' | '', StrF [digit] 0]"

function dec_to_base_loop ::
  "bool \<Rightarrow> int \<Rightarrow> nat option \<Rightarrow> int \<Rightarrow> string \<Rightarrow> step list \<Rightarrow> error + (string \<times> step list)"
where
  "dec_to_base_loop show_steps base step_num working_n digits steps =
     (if working_n \<le> 0 \<or> base < 2 then Inr (digits, steps)
      else
        case index_py BASE_DIGITS (working_n mod base) of
          Inl e \<Rightarrow> Inl e
        | Inr digit \<Rightarrow>
            (case step_num of
               None \<Rightarrow> Inl UnboundLocalError
             | Some k \<Rightarrow>
                 dec_to_base_loop show_steps base
                   (Some (k + (if show_steps then 1 else 0)))
                   (working_n div base)
                   (digits @ [digit])
                   (if show_steps
                    then steps @ [dec_to_base_row k working_n base (working_n mod base) digit]
                    else steps)))"
  by pat_completeness auto
termination
  by (relation "measure (\<lambda>(show_steps, base, step_num, working_n, digits, steps). nat working_n)")
     (auto intro!: int_div_less_self)

definition dec_to_base :: "int \<Rightarrow> int \<Rightarrow> bool \<Rightarrow> error + string ret" where
  "dec_to_base n base show_steps =
     (if n = 0 then
        (if show_steps
         then Inr (Traced ''0'' [[Lit ''0 in decimal is 0 in base '', IntF base 0]])
         else Inr (Plain ''0''))
      else if \<not> (MIN_BASE \<le> base \<and> base \<le> MAX_BASE) then Inl ValueError
      else
        let is_negative = (n < 0);
            steps1 = (if is_negative
                      then [[Lit ''Converting negative number: '', IntF n 0],
                            [Lit ''Taking absolute value: '', IntF \<bar>n\<bar> 0]]
                      else []);
            working_n = (if is_negative then \<bar>n\<bar> else n);
            steps2 = (if show_steps
                      then steps1 @
                        [[Lit ''Starting decimal to base '', IntF base 0,
                          Lit '' conversion of '', IntF working_n 0, Lit '':''],
                         [Lit ''Step | Decimal | Divided by Base | Remainder | Digit''],
                         [Lit ''---- | ------- | --------------- | --------- | -----'']]
                      else steps1);
            step_num = (if show_steps then Some 1 else None)
        in case dec_to_base_loop show_steps base step_num working_n [] steps2 of
             Inl e \<Rightarrow> Inl e
           | Inr (digits, steps3) \<Rightarrow>
               let result = rev digits;
                   final_result = (if is_negative then CHR ''-'' # result else result)
               in if show_steps then
                    Inr (Traced final_result
                      (steps3 @
                       [[Lit ''Reading remainders from bottom to top: '', StrF result 0]] @
                       (if is_negative
                        then [[Lit ''Adding negative sign: '', StrF final_result 0]] else []) @
                       [[Lit ''Final result: '', IntF n 0, Lit '' in decimal = '',
                         StrF final_result 0, Lit '' in base '', IntF base 0]]))
                  else Inr (Plain final_result))"

section \<open>Any base to decimal\<close>

definition base_to_dec_row :: "nat \<Rightarrow> char \<Rightarrow> int \<Rightarrow> int \<Rightarrow> step" where
  "base_to_dec_row i digit digit_value position_value =
     [IntF (int i) 8, Lit '' | '', StrF [digit] 5, Lit '' | '', IntF digit_value 11,
      Lit '' | '', IntF position_value 38]"

text \<open>
  The loop \<open>for i, digit in enumerate(reversed(...))\<close> of the four converters to
  decimal, on the reversed string and the index of its head. The converters differ in how
  they read a digit (\<open>BASE_DIGITS.index(digit)\<close>, \<open>HEX_DIGITS.index(digit)\<close> or
  \<open>int(digit)\<close>), in the base and in the row they append to the trace.
\<close>

fun to_dec_loop ::
  "(char \<Rightarrow> error + int) \<Rightarrow> (nat \<Rightarrow> char \<Rightarrow> int \<Rightarrow> int \<Rightarrow> step) \<Rightarrow> bool \<Rightarrow> int \<Rightarrow> nat \<Rightarrow> string
   \<Rightarrow> int \<Rightarrow> step list \<Rightarrow> error + (int \<times> step list)"
where
  "to_dec_loop digit_value_of row show_steps base i [] decimal_value steps =
     Inr (decimal_value, steps)"
| "to_dec_loop digit_value_of row show_steps base i (digit # rest) decimal_value steps =
     (case digit_value_of digit of
        Inl e \<Rightarrow> Inl e
      | Inr digit_value \<Rightarrow>
          to_dec_loop digit_value_of row show_steps base (Suc i) rest
            (decimal_value + digit_value * base ^ i)
            (if show_steps
             then steps @ [row i digit digit_value (digit_value * base ^ i)]
             else steps))"

definition base_to_dec :: "string \<Rightarrow> int \<Rightarrow> bool \<Rightarrow> error + int ret" where
  "base_to_dec original_str base show_steps =
     (if \<not> (MIN_BASE \<le> base \<and> base \<le> MAX_BASE) then Inl ValueError
      else
        let is_negative = startswith original_str ''-'';
            number_str = (if is_negative then tl original_str else original_str);
            steps1 = (if is_negative
                      then [[Lit ''Converting negative number: '', StrF original_str 0],
                            [Lit ''Removing negative sign for conversion: '', StrF number_str 0]]
                      else []);
            valid_chars = take (nat base) BASE_DIGITS
        in if \<not> fullmatch_class valid_chars (upper number_str) then Inl ValueError
           else
             let steps2 = (if show_steps
                           then steps1 @
                             [[Lit ''Starting base '', IntF base 0,
                               Lit '' to decimal conversion of '', StrF number_str 0, Lit '':''],
                              [Lit (''Position | Digit | Digit Value | Value = Digit Value ''
                                    @ [CHR 0xD7] @ '' ''),
                               IntF base 0, Lit ''^Position''],
                              [Lit ''-------- | ----- | ----------- | -----------------------------------------'']]
                           else steps1)
             in case to_dec_loop (str_index BASE_DIGITS) base_to_dec_row show_steps base 0
                       (rev (upper number_str)) 0 steps2 of
                  Inl e \<Rightarrow> Inl e
                | Inr (decimal_value0, steps3) \<Rightarrow>
                    let decimal_value = (if is_negative then - decimal_value0 else decimal_value0)
                    in if show_steps then
                         Inr (Traced decimal_value
                           (steps3 @
                            (if is_negative
                             then [[Lit ''Applying negative sign: '', IntF decimal_value 0]]
                             else []) @
                            [[Lit ''Final result: '', StrF original_str 0, Lit '' in base '',
                              IntF base 0, Lit '' = '', IntF decimal_value 0,
                              Lit '' in decimal'']]))
                       else Inr (Plain decimal_value))"

section \<open>Decimal to binary, octal and hexadecimal\<close>

text \<open>
  The three fixed-base converters run the same loop with a mask and a shift:
  \<open>remainder = working_n & mask\<close>, then \<open>working_n >>= shift\<close>, with \<open>& 1\<close> and
  \<open>>> 1\<close>, \<open>& 7\<close> and \<open>>> 3\<close>, \<open>& 15\<close> and \<open>>> 4\<close>. They append \<open>str(remainder)\<close>
  or \<open>HEX_DIGITS[remainder]\<close> to a list of strings, which is reversed and joined at the
  end. As in \<open>dec_to_base\<close>, \<open>step_num\<close> is bound only under \<open>show_steps\<close> and read at
  the end of every iteration; the loop is entered with a positive \<open>working_n\<close>.
\<close>

function shift_loop ::
  "bool \<Rightarrow> int \<Rightarrow> nat \<Rightarrow> (int \<Rightarrow> error + string) \<Rightarrow> (nat \<Rightarrow> int \<Rightarrow> int \<Rightarrow> string \<Rightarrow> step)
   \<Rightarrow> nat option \<Rightarrow> int \<Rightarrow> string list \<Rightarrow> step list \<Rightarrow> error + (string list \<times> step list)"
where
  "shift_loop show_steps msk shift digit_of row step_num working_n chars steps =
     (if working_n \<le> 0 \<or> shift = 0 then Inr (chars, steps)
      else
        case digit_of (working_n AND msk) of
          Inl e \<Rightarrow> Inl e
        | Inr digit \<Rightarrow>
            (case step_num of
               None \<Rightarrow> Inl UnboundLocalError
             | Some k \<Rightarrow>
                 shift_loop show_steps msk shift digit_of row
                   (Some (k + (if show_steps then 1 else 0)))
                   (drop_bit shift working_n)
                   (chars @ [digit])
                   (if show_steps
                    then steps @ [row k working_n (working_n AND msk) digit]
                    else steps)))"
  by pat_completeness auto
termination
  by (relation "measure (\<lambda>(show_steps, msk, shift, digit_of, row, step_num, working_n, chars,
        steps). nat working_n)")
     (auto simp: drop_bit_eq_div intro!: int_div_less_self)

definition dec_to_bin_row :: "nat \<Rightarrow> int \<Rightarrow> int \<Rightarrow> string \<Rightarrow> step" where
  "dec_to_bin_row step_num working_n remainder digit =
     [IntF (int step_num) 4, Lit '' | '', IntF working_n 7, Lit '' | 2           | '',
      IntF remainder 0]"

definition dec_to_oct_row :: "nat \<Rightarrow> int \<Rightarrow> int \<Rightarrow> string \<Rightarrow> step" where
  "dec_to_oct_row step_num working_n remainder digit =
     [IntF (int step_num) 4, Lit '' | '', IntF working_n 7, Lit '' | 8           | '',
      IntF remainder 0]"

definition dec_to_hex_row :: "nat \<Rightarrow> int \<Rightarrow> int \<Rightarrow> string \<Rightarrow> step" where
  "dec_to_hex_row step_num working_n remainder hex_digit =
     [IntF (int step_num) 4, Lit '' | '', IntF working_n 7, Lit '' | 16          | '',
      IntF remainder 9, Lit '' | '', StrF hex_digit 0]"

definition str_digit :: "int \<Rightarrow> error + string" where
  "str_digit remainder = Inr (str_int remainder)"

definition hex_digit_of :: "int \<Rightarrow> error + string" where
  "hex_digit_of remainder =
     (case index_py HEX_DIGITS remainder of Inl e \<Rightarrow> Inl e | Inr c \<Rightarrow> Inr [c])"

text \<open>
  What follows the loop in the three converters: reverse and join, prepend the sign, and
  return the string alone or with the trace. \<open>name\<close> is the word the final line ends with.
\<close>

definition dec_to_finish ::
  "bool \<Rightarrow> bool \<Rightarrow> int \<Rightarrow> string \<Rightarrow> string list \<Rightarrow> step list \<Rightarrow> string ret" where
  "dec_to_finish show_steps is_negative original_n name chars steps =
     (let result = concat (rev chars);
          final_result = (if is_negative then CHR ''-'' # result else result)
      in if show_steps then
           Traced final_result
             (steps @
              [[Lit ''Reading remainders from bottom to top: '', StrF result 0]] @
              (if is_negative
               then [[Lit ''Adding negative sign: '', StrF final_result 0]] else []) @
              [[Lit ''Final result: '', IntF original_n 0, Lit '' in decimal = '',
                StrF final_result 0, Lit ('' in '' @ name)]])
         else Plain final_result)"

definition dec_to_bin :: "int \<Rightarrow> bool \<Rightarrow> error + string ret" where
  "dec_to_bin original_n show_steps =
     (if original_n = 0 then
        (if show_steps then Inr (Traced ''0'' [[Lit ''0 in decimal is 0 in binary'']])
         else Inr (Plain ''0''))
      else
        let is_negative = (original_n < 0);
            bits_needed = bit_length original_n + 1;
            n = (if is_negative then push_bit bits_needed 1 + original_n else original_n);
            steps1 = (if is_negative
                      then [[Lit ''Converting negative number: '', IntF original_n 0],
                            [Lit ''Determined '', IntF (int bits_needed) 0,
                             Lit ('' bits needed for two'' @ [CHR 0x27]
                                  @ ''s complement representation'')],
                            [Lit (''Computed two'' @ [CHR 0x27] @ ''s complement value: ''),
                             IntF n 0]]
                      else []);
            steps2 = (if show_steps
                      then steps1 @
                        [[Lit ''Starting decimal to binary conversion of '', IntF n 0, Lit '':''],
                         [Lit ''Step | Decimal | Divided by 2 | Remainder''],
                         [Lit ''---- | ------- | ------------ | ---------'']]
                      else steps1);
            step_num = (if show_steps then Some 1 else None)
        in case shift_loop show_steps 1 1 str_digit dec_to_bin_row step_num n [] steps2 of
             Inl e \<Rightarrow> Inl e
           | Inr (bits, steps3) \<Rightarrow>
               Inr (dec_to_finish show_steps is_negative original_n ''binary'' bits steps3))"

definition dec_to_oct :: "int \<Rightarrow> bool \<Rightarrow> error + string ret" where
  "dec_to_oct original_n show_steps =
     (if original_n = 0 then
        (if show_steps then Inr (Traced ''0'' [[Lit ''0 in decimal is 0 in octal'']])
         else Inr (Plain ''0''))
      else
        let is_negative = (original_n < 0);
            n = (if is_negative then \<bar>original_n\<bar> else original_n);
            steps1 = (if is_negative
                      then [[Lit ''Converting negative number: '', IntF original_n 0],
                            [Lit ''Taking absolute value: '', IntF n 0]]
                      else []);
            steps2 = (if show_steps
                      then steps1 @
                        [[Lit ''Starting decimal to octal conversion of '', IntF n 0, Lit '':''],
                         [Lit ''Step | Decimal | Divided by 8 | Remainder''],
                         [Lit ''---- | ------- | ------------ | ---------'']]
                      else steps1);
            step_num = (if show_steps then Some 1 else None)
        in case shift_loop show_steps 7 3 str_digit dec_to_oct_row step_num n [] steps2 of
             Inl e \<Rightarrow> Inl e
           | Inr (chars, steps3) \<Rightarrow>
               Inr (dec_to_finish show_steps is_negative original_n ''octal'' chars steps3))"

definition dec_to_hex :: "int \<Rightarrow> bool \<Rightarrow> error + string ret" where
  "dec_to_hex original_n show_steps =
     (if original_n = 0 then
        (if show_steps then Inr (Traced ''0'' [[Lit ''0 in decimal is 0 in hexadecimal'']])
         else Inr (Plain ''0''))
      else
        let is_negative = (original_n < 0);
            n = (if is_negative then \<bar>original_n\<bar> else original_n);
            steps1 = (if is_negative
                      then [[Lit ''Converting negative number: '', IntF original_n 0],
                            [Lit ''Taking absolute value: '', IntF n 0]]
                      else []);
            steps2 = (if show_steps
                      then steps1 @
                        [[Lit ''Starting decimal to hexadecimal conversion of '', IntF n 0,
                          Lit '':''],
                         [Lit ''Step | Decimal | Divided by 16 | Remainder | Hex Digit''],
                         [Lit ''---- | ------- | ------------ | --------- | ---------'']]
                      else steps1);
            step_num = (if show_steps then Some 1 else None)
        in case shift_loop show_steps 15 4 hex_digit_of dec_to_hex_row step_num n [] steps2 of
             Inl e \<Rightarrow> Inl e
           | Inr (chars, steps3) \<Rightarrow>
               Inr (dec_to_finish show_steps is_negative original_n ''hexadecimal'' chars
                      steps3))"

section \<open>Binary, octal and hexadecimal to decimal\<close>

definition bin_to_dec_row :: "nat \<Rightarrow> char \<Rightarrow> int \<Rightarrow> int \<Rightarrow> step" where
  "bin_to_dec_row i digit digit_value position_value =
     [IntF (int i) 8, Lit '' | '', StrF [digit] 5, Lit '' | '', IntF position_value 24]"

definition oct_to_dec_row :: "nat \<Rightarrow> char \<Rightarrow> int \<Rightarrow> int \<Rightarrow> step" where
  "oct_to_dec_row i digit digit_value position_value =
     [IntF (int i) 8, Lit '' | '', StrF [digit] 5, Lit '' | '', IntF position_value 24]"

definition hex_to_dec_row :: "nat \<Rightarrow> char \<Rightarrow> int \<Rightarrow> int \<Rightarrow> step" where
  "hex_to_dec_row i digit digit_value position_value =
     [IntF (int i) 8, Lit '' | '', StrF [digit] 5, Lit '' | '', IntF digit_value 11,
      Lit '' | '', IntF position_value 35]"

text \<open>
  What follows the loop in the three converters: apply the sign, and return the integer
  alone or with the trace. \<open>name\<close> is the name of the source base in the final line.
\<close>

definition to_dec_finish ::
  "bool \<Rightarrow> bool \<Rightarrow> string \<Rightarrow> string \<Rightarrow> int \<Rightarrow> step list \<Rightarrow> int ret" where
  "to_dec_finish show_steps is_negative original_str name decimal_value0 steps =
     (let decimal_value = (if is_negative then - decimal_value0 else decimal_value0)
      in if show_steps then
           Traced decimal_value
             (steps @
              (if is_negative
               then [[Lit ''Applying negative sign: '', IntF decimal_value 0]] else []) @
              [[Lit ''Final result: '', StrF original_str 0, Lit ('' in '' @ name @ '' = ''),
                IntF decimal_value 0, Lit '' in decimal'']])
         else Plain decimal_value)"

definition bin_to_dec :: "string \<Rightarrow> bool \<Rightarrow> error + int ret" where
  "bin_to_dec original_bstr show_steps =
     (
        let is_negative = startswith original_bstr ''-'';
            bstr1 = (if is_negative then tl original_bstr else original_bstr);
            steps1 = (if is_negative
                      then [[Lit ''Converting negative binary number: '', StrF original_bstr 0],
                            [Lit ''Removing negative sign for conversion: '', StrF bstr1 0]]
                      else [])
        in if \<not> fullmatch_class ''01'' bstr1 then Inl ValueError
           else
             let steps2 = (if show_steps
                           then steps1 @
                             [[Lit ''Starting binary to decimal conversion of '', StrF bstr1 0,
                               Lit '':''],
                              [Lit (''Position | Digit | Value = Digit '' @ [CHR 0xD7]
                                @ '' 2^Position'')],
                          [Lit ''-------- | ----- | --------------------------'']]
                           else steps1)
             in case to_dec_loop int_of_char bin_to_dec_row show_steps 2 0 (rev bstr1) 0 steps2 of
                  Inl e \<Rightarrow> Inl e
                | Inr (decimal_value, steps3) \<Rightarrow>
                    Inr (to_dec_finish show_steps is_negative original_bstr ''binary''
                           decimal_value steps3))"

definition oct_to_dec :: "string \<Rightarrow> bool \<Rightarrow> error + int ret" where
  "oct_to_dec original_ostr show_steps =
     (
        let is_negative = startswith original_ostr ''-'';
            ostr1 = (if is_negative then tl original_ostr else original_ostr);
            steps1 = (if is_negative
                      then [[Lit ''Converting negative octal number: '', StrF original_ostr 0],
                            [Lit ''Removing negative sign for conversion: '', StrF ostr1 0]]
                      else [])
        in if \<not> fullmatch_class ''01234567'' ostr1 then Inl ValueError
           else
             let steps2 = (if show_steps
                           then steps1 @
                             [[Lit ''Starting octal to decimal conversion of '', StrF ostr1 0,
                               Lit '':''],
                              [Lit (''Position | Digit | Value = Digit '' @ [CHR 0xD7]
                                @ '' 8^Position'')],
                          [Lit ''-------- | ----- | --------------------------'']]
                           else steps1)
             in case to_dec_loop int_of_char oct_to_dec_row show_steps 8 0 (rev ostr1) 0 steps2 of
                  Inl e \<Rightarrow> Inl e
                | Inr (decimal_value, steps3) \<Rightarrow>
                    Inr (to_dec_finish show_steps is_negative original_ostr ''octal''
                           decimal_value steps3))"

definition hex_to_dec :: "string \<Rightarrow> bool \<Rightarrow> error + int ret" where
  "hex_to_dec original_hstr show_steps =
     (
        let hstr = upper original_hstr;
            is_negative = startswith hstr ''-'';
            hstr1 = (if is_negative then tl hstr else hstr);
            steps1 = (if is_negative
                      then [[Lit ''Converting negative hexadecimal number: '', StrF original_hstr 0],
                            [Lit ''Removing negative sign for conversion: '', StrF hstr1 0]]
                      else [])
        in if \<not> fullmatch_class ''0123456789ABCDEF'' hstr1 then Inl ValueError
           else
             let steps2 = (if show_steps
                           then steps1 @
                             [[Lit ''Starting hexadecimal to decimal conversion of '', StrF hstr1 0,
                               Lit '':''],
                              [Lit (''Position | Digit | Digit Value | Value = Digit Value ''
                                @ [CHR 0xD7] @ '' 16^Position'')],
                          [Lit ''-------- | ----- | ----------- | -----------------------------------'']]
                           else steps1)
             in case to_dec_loop (str_index HEX_DIGITS) hex_to_dec_row show_steps 16 0 (rev hstr1) 0 steps2 of
                  Inl e \<Rightarrow> Inl e
                | Inr (decimal_value, steps3) \<Rightarrow>
                    Inr (to_dec_finish show_steps is_negative original_hstr ''hexadecimal''
                           decimal_value steps3))"

section \<open>Cross conversions through decimal\<close>

text \<open>
  The six converters between binary, octal and hexadecimal have one body: with
  \<open>show_steps\<close> they call both legs with \<open>show_steps=True\<close> and join the traces; without,
  they return \<open>from_dec(to_dec(number_str))\<close>.
\<close>

definition cross_convert ::
  "(string \<Rightarrow> bool \<Rightarrow> error + int ret) \<Rightarrow> (int \<Rightarrow> bool \<Rightarrow> error + string ret) \<Rightarrow> string \<Rightarrow> string
   \<Rightarrow> string \<Rightarrow> bool \<Rightarrow> error + string ret" where
  "cross_convert to_dec from_dec from_name to_name number_str show_steps =
     (if show_steps then
        case to_dec number_str True of
          Inl e \<Rightarrow> Inl e
        | Inr leg1 \<Rightarrow>
            (case from_dec (value_of leg1) True of
               Inl e \<Rightarrow> Inl e
             | Inr leg2 \<Rightarrow>
                 Inr (Traced (value_of leg2)
                   ([[Lit (''Starting '' @ from_name @ '' to '' @ to_name @ '' conversion of ''),
                      StrF number_str 0],
                     [Lit (''Step 1: Convert '' @ from_name @ '' to decimal'')],
                     [Lit (replicate 50 CHR ''='')]] @
                    steps_of leg1 @
                    [[Lit []],
                     [Lit (''Step 2: Convert decimal to '' @ to_name)],
                     [Lit (replicate 50 CHR ''='')]] @
                    steps_of leg2 @
                    [[Lit []],
                     [Lit (replicate 50 CHR ''='')],
                     [Lit ''Complete conversion: '', StrF number_str 0,
                      Lit ('' ('' @ from_name @ '') = ''), StrF (value_of leg2) 0,
                      Lit ('' ('' @ to_name @ '')'')]])))
      else
        case to_dec number_str False of
          Inl e \<Rightarrow> Inl e
        | Inr leg1 \<Rightarrow> from_dec (value_of leg1) False)"

definition bin_to_oct :: "string \<Rightarrow> bool \<Rightarrow> error + string ret" where
  "bin_to_oct bstr show_steps =
     cross_convert bin_to_dec dec_to_oct ''binary'' ''octal'' bstr show_steps"

definition bin_to_hex :: "string \<Rightarrow> bool \<Rightarrow> error + string ret" where
  "bin_to_hex bstr show_steps =
     cross_convert bin_to_dec dec_to_hex ''binary'' ''hexadecimal'' bstr show_steps"

definition oct_to_bin :: "string \<Rightarrow> bool \<Rightarrow> error + string ret" where
  "oct_to_bin ostr show_steps =
     cross_convert oct_to_dec dec_to_bin ''octal'' ''binary'' ostr show_steps"

definition oct_to_hex :: "string \<Rightarrow> bool \<Rightarrow> error + string ret" where
  "oct_to_hex ostr show_steps =
     cross_convert oct_to_dec dec_to_hex ''octal'' ''hexadecimal'' ostr show_steps"

definition hex_to_bin :: "string \<Rightarrow> bool \<Rightarrow> error + string ret" where
  "hex_to_bin hstr show_steps =
     cross_convert hex_to_dec dec_to_bin ''hexadecimal'' ''binary'' hstr show_steps"

definition hex_to_oct :: "string \<Rightarrow> bool \<Rightarrow> error + string ret" where
  "hex_to_oct hstr show_steps =
     cross_convert hex_to_dec dec_to_oct ''hexadecimal'' ''octal'' hstr show_steps"

section \<open>Decimal float to any base\<close>

text \<open>
  A float operation is the exact operation followed by rounding to the nearest double.
  The rounding is the parameter \<open>rnd\<close> of the converter: what is proved for every \<open>rnd\<close>
  holds for the one of the machine. \<open>int(x)\<close> truncates toward zero, raises ValueError on
  NaN and OverflowError on an infinity.
\<close>

definition trunc :: "rat \<Rightarrow> int" where
  "trunc x = (if 0 \<le> x then \<lfloor>x\<rfloor> else \<lceil>x\<rceil>)"

fun int_of_float :: "pyfloat \<Rightarrow> error + int" where
  "int_of_float (Finite x) = Inr (trunc x)"
| "int_of_float (Infinity neg) = Inl OverflowError"
| "int_of_float NaN = Inl ValueError"

fun float_is_zero :: "pyfloat \<Rightarrow> bool" where
  "float_is_zero (Finite x) = (x = 0)"
| "float_is_zero f = False"

fun float_negative :: "pyfloat \<Rightarrow> bool" where
  "float_negative (Finite x) = (x < 0)"
| "float_negative (Infinity neg) = neg"
| "float_negative NaN = False"

fun float_abs :: "pyfloat \<Rightarrow> pyfloat" where
  "float_abs (Finite x) = Finite \<bar>x\<bar>"
| "float_abs (Infinity neg) = Infinity False"
| "float_abs NaN = NaN"

fun float_sub_int :: "(rat \<Rightarrow> rat) \<Rightarrow> pyfloat \<Rightarrow> int \<Rightarrow> rat" where
  "float_sub_int rnd (Finite x) i = rnd (x - of_int i)"
| "float_sub_int rnd f i = 0"

definition dec_to_base_float_row :: "(rat \<Rightarrow> rat) \<Rightarrow> nat \<Rightarrow> rat \<Rightarrow> int \<Rightarrow> int \<Rightarrow> step" where
  "dec_to_base_float_row rnd step_num working_frac base int_digit =
     [IntF (int step_num) 4, Lit '' | '',
      FloatF (Finite (rnd (working_frac / of_int base))) (Some (10, 6)), Lit '' | '',
      IntF base 20, Lit '' | '', FloatF (Finite working_frac) (Some (9, 6)), Lit '' | '',
      IntF int_digit 12]"

text \<open>
  The loop \<open>for _ in range(precision)\<close>, on the number of iterations left. Here
  \<open>step_num\<close> is assigned and read under \<open>show_steps\<close> only.
\<close>

fun frac_loop ::
  "(rat \<Rightarrow> rat) \<Rightarrow> bool \<Rightarrow> int \<Rightarrow> nat \<Rightarrow> nat \<Rightarrow> rat \<Rightarrow> string \<Rightarrow> step list
   \<Rightarrow> error + (string \<times> step list)"
where
  "frac_loop rnd show_steps base 0 step_num working_frac frac_result steps =
     Inr (frac_result, steps)"
| "frac_loop rnd show_steps base (Suc left) step_num working_frac frac_result steps =
     (let multiplied = rnd (working_frac * of_int base);
          int_digit = trunc multiplied
      in case index_py BASE_DIGITS int_digit of
           Inl e \<Rightarrow> Inl e
         | Inr digit \<Rightarrow>
             let steps' = (if show_steps
                           then steps @ [dec_to_base_float_row rnd step_num multiplied base
                                           int_digit]
                           else steps);
                 step_num' = (if show_steps then step_num + 1 else step_num);
                 remaining = rnd (multiplied - of_int int_digit)
             in if remaining = 0 then Inr (frac_result @ [digit], steps')
                else frac_loop rnd show_steps base left step_num' remaining
                       (frac_result @ [digit]) steps')"

definition dec_to_base_float ::
  "(rat \<Rightarrow> rat) \<Rightarrow> pyfloat \<Rightarrow> int \<Rightarrow> int \<Rightarrow> bool \<Rightarrow> error + string ret" where
  "dec_to_base_float rnd original_decimal base precision show_steps =
     (if float_is_zero original_decimal then
        (if show_steps
         then Inr (Traced ''0.0'' [[Lit ''0.0 in decimal is 0.0 in base '', IntF base 0]])
         else Inr (Plain ''0.0''))
      else if \<not> (MIN_BASE \<le> base \<and> base \<le> MAX_BASE) then Inl ValueError
      else
        let is_negative = float_negative original_decimal;
            decimal = (if is_negative then float_abs original_decimal else original_decimal);
            steps1 = (if is_negative
                      then [[Lit ''Converting negative number: '', FloatF original_decimal None],
                            [Lit ''Taking absolute value: '', FloatF decimal None]]
                      else [])
        in case int_of_float decimal of
             Inl e \<Rightarrow> Inl e
           | Inr int_part \<Rightarrow>
               let frac_part = float_sub_int rnd decimal int_part
               in case dec_to_base int_part base False of
                    Inl e \<Rightarrow> Inl e
                  | Inr converted \<Rightarrow>
                      let int_result = value_of converted;
                          steps2 = (if show_steps
                                    then steps1 @
                                      [[Lit ''Converting integer part '', IntF int_part 0,
                                        Lit '': '', StrF int_result 0],
                                       [Lit ''Converting fractional part '',
                                        FloatF (Finite frac_part) None, Lit '':''],
                                       [Lit ''Step | Fractional | Multiplied by Base | Result    | Integer Part''],
                                       [Lit ''---- | ---------- | ------------------ | --------- | ------------'']]
                                    else steps1)
                      in case frac_loop rnd show_steps base (nat precision) 1 frac_part []
                                steps2 of
                           Inl e \<Rightarrow> Inl e
                         | Inr (frac_result, steps3) \<Rightarrow>
                             let result = (if frac_result \<noteq> []
                                           then int_result @ ''.'' @ frac_result
                                           else int_result);
                                 final_result = (if is_negative then CHR ''-'' # result
                                                 else result)
                             in if show_steps then
                                  Inr (Traced final_result
                                    (steps3 @
                                     [[Lit ''Combining results: '', StrF final_result 0]] @
                                     (if is_negative
                                      then [[Lit ''Adding negative sign: '',
                                             StrF final_result 0]]
                                      else []) @
                                     [[Lit ''Final result: '', FloatF original_decimal None,
                                       Lit '' in decimal = '', StrF final_result 0,
                                       Lit '' in base '', IntF base 0]]))
                                else Inr (Plain final_result))"

section \<open>Vocabulary of the properties\<close>

text \<open>
  A per-digit record of a trace is a table row: the lines appended inside a conversion
  loop, and only they, start with an interpolated integer (the step number or the digit
  position). \<open>row_number\<close> is that integer and \<open>row_digit\<close> the digit the row shows, its
  only interpolated string.
\<close>

fun is_row :: "step \<Rightarrow> bool" where
  "is_row (IntF k w # rest) = True"
| "is_row st = False"

fun row_number :: "step \<Rightarrow> int" where
  "row_number (IntF k w # rest) = k"
| "row_number st = 0"

fun frag_string :: "frag \<Rightarrow> string" where
  "frag_string (StrF s w) = s"
| "frag_string f = []"

definition row_digit :: "step \<Rightarrow> string" where
  "row_digit st = concat (map frag_string st)"

text \<open>
  The remainders of the repeated division of \<open>w\<close> by \<open>base\<close>, least significant first, and
  the value of a list of digit values, least significant first, the head at position \<open>i\<close>.
\<close>

function lsd_digits :: "int \<Rightarrow> int \<Rightarrow> int list" where
  "lsd_digits base w =
     (if w \<le> 0 \<or> base < 2 then [] else (w mod base) # lsd_digits base (w div base))"
  by pat_completeness auto
termination
  by (relation "measure (\<lambda>(base, w). nat w)") (auto intro!: int_div_less_self)

fun pos_value :: "int \<Rightarrow> nat \<Rightarrow> int list \<Rightarrow> int" where
  "pos_value base i [] = 0"
| "pos_value base i (d # ds) = d * base ^ i + pos_value base (Suc i) ds"

definition digit_char :: "int \<Rightarrow> char" where
  "digit_char r = BASE_DIGITS ! nat r"

definition drop_high_zeros :: "int list \<Rightarrow> int list" where
  "drop_high_zeros ds = rev (dropWhile (\<lambda>d. d = 0) (rev ds))"

definition digit_val :: "char \<Rightarrow> int" where
  "digit_val c = (case str_index BASE_DIGITS c of Inl e \<Rightarrow> 0 | Inr v \<Rightarrow> v)"

text \<open>
  The numeral of an integer as the specification words it for \<open>toBase\<close>: the digit 0
  for zero; otherwise the remainders of the magnitude, reversed to most significant
  first, as characters of 0-9 and A-F, after a minus sign when the integer is negative.
\<close>

definition numeral_of :: "int \<Rightarrow> int \<Rightarrow> string" where
  "numeral_of base n =
     (if n = 0 then ''0''
      else (if n < 0 then ''-'' else []) @ rev (map digit_char (lsd_digits base \<bar>n\<bar>)))"

text \<open>
  The value of a numeral as the specification words it for \<open>fromBase\<close>: the sum of the
  digit values times the powers of the base, negated after a leading minus sign.
\<close>

definition value_in :: "int \<Rightarrow> string \<Rightarrow> int" where
  "value_in base s =
     (if startswith s ''-'' then - 1 else 1) *
     pos_value base 0 (map digit_val (rev (upper (body_of s))))"

text \<open>
  The canonical form of a numeral: upper-case digits, no leading zero, and a sign only on
  a nonzero value.
\<close>

definition canonical :: "string \<Rightarrow> string" where
  "canonical s =
     (let body = dropWhile (\<lambda>c. c = CHR ''0'') (upper (body_of s))
      in if body = [] then ''0''
         else if startswith s ''-'' then CHR ''-'' # body
         else body)"

text \<open>
  A cross conversion followed by the one back, both with \<open>show_steps=True\<close>; the result
  is the numeral returned, without the trace.
\<close>

definition there_and_back ::
  "(string \<Rightarrow> bool \<Rightarrow> error + string ret) \<Rightarrow> (string \<Rightarrow> bool \<Rightarrow> error + string ret) \<Rightarrow> string
   \<Rightarrow> error + string" where
  "there_and_back forth back s =
     (case forth s True of
        Inl e \<Rightarrow> Inl e
      | Inr there \<Rightarrow>
          (case back (value_of there) True of
             Inl e \<Rightarrow> Inl e
           | Inr again \<Rightarrow> Inr (value_of again)))"

section \<open>Properties of the character converters\<close>

text \<open>
  C10: for every code point \<open>cp\<close> of [0, 1114111], the surrogates included,
  \<open>ascii_to_char(cp)\<close> returns a string of one character and \<open>char_to_ascii\<close> maps it
  back to \<open>cp\<close>; \<open>ascii_to_char\<close> raises exactly when \<open>cp\<close> is outside this range.
\<close>

theorem ascii_to_char_roundtrip:
  "(0 \<le> cp \<and> cp \<le> 1114111 \<longrightarrow>
      (\<exists>c. ascii_to_char cp False = Inr (Plain [c]) \<and> char_to_ascii [c] False = Inr (Plain cp)))
   \<and> ((\<exists>e. ascii_to_char cp False = Inl e) \<longleftrightarrow> \<not> (0 \<le> cp \<and> cp \<le> 1114111))"
  by (auto simp: ascii_to_char_def char_to_ascii_def chr_py_def)

theorem ascii_to_char_roundtrip_witness:
  "(0::int) \<le> 55296 \<and> (55296::int) \<le> 1114111 \<and>
   (\<exists>c. ascii_to_char 55296 False = Inr (Plain [c]) \<and>
        char_to_ascii [c] False = Inr (Plain 55296))"
  using ascii_to_char_roundtrip [of 55296] by simp

section \<open>Properties of the base sniffer\<close>

lemma body_of_unsigned: "body_of t = unsigned t"
  by (cases t) (simp_all add: body_of_def startswith_def)

lemma fullmatch_signed_body:
  "CHR ''-'' \<notin> set cls \<Longrightarrow> fullmatch_signed cls t = all_digits cls (body_of t)"
  by (cases t) (auto simp: fullmatch_signed_def fullmatch_class_def all_digits_def body_of_def
      startswith_def list_all_iff)

lemma isspace_white_space: "\<forall>c. isspace c = (c \<in> set white_space)"
  by code_simp

lemma lower_char_marks:
  "\<forall>c. (lower_char c = CHR ''0'') = (c = CHR ''0'') \<and>
       (lower_char c = CHR ''b'') = (c = CHR ''b'' \<or> c = CHR ''B'') \<and>
       (lower_char c = CHR ''o'') = (c = CHR ''o'' \<or> c = CHR ''O'') \<and>
       (lower_char c = CHR ''x'') = (c = CHR ''x'' \<or> c = CHR ''X'')"
  by code_simp

lemma dropWhile_isspace: "dropWhile isspace s = trim_left s"
  by (induction s) (simp_all add: isspace_white_space)

lemma strip_trimmed: "strip s = trimmed s"
  by (simp add: strip_def trimmed_def dropWhile_isspace)

lemma startswith_lower_marked:
  "startswith (lower t) ''0b'' = marked CHR ''b'' CHR ''B'' t"
  "startswith (lower t) ''0o'' = marked CHR ''o'' CHR ''O'' t"
  "startswith (lower t) ''0x'' = marked CHR ''x'' CHR ''X'' t"
proof -
  have two: "startswith (lower t) [CHR ''0'', l] =
             (\<exists>c0 c1 rest. t = c0 # c1 # rest \<and> lower_char c0 = CHR ''0'' \<and> lower_char c1 = l)"
    for l
  proof (cases t)
    case Nil
    then show ?thesis by (simp add: startswith_def lower_def)
  next
    case (Cons c0 t1)
    then show ?thesis by (cases t1) (auto simp: startswith_def lower_def)
  qed
  have m: "marked small capital t =
           (\<exists>c0 c1 rest. t = c0 # c1 # rest \<and> c0 = CHR ''0'' \<and> (c1 = small \<or> c1 = capital))"
    for small capital
  proof (cases t)
    case Nil
    then show ?thesis by simp
  next
    case (Cons c0 t1)
    then show ?thesis by (cases t1) auto
  qed
  show "startswith (lower t) ''0b'' = marked CHR ''b'' CHR ''B'' t"
    unfolding two m using lower_char_marks by simp
  show "startswith (lower t) ''0o'' = marked CHR ''o'' CHR ''O'' t"
    unfolding two m using lower_char_marks by simp
  show "startswith (lower t) ''0x'' = marked CHR ''x'' CHR ''X'' t"
    unfolding two m using lower_char_marks by simp
qed

lemma detect_base_refines: "detect_base s = detect_base_spec s"
  by (simp add: detect_base_def detect_base_spec_def strip_trimmed startswith_lower_marked
      fullmatch_signed_body body_of_unsigned Let_def)

lemma trim_left_white:
  "set l \<subseteq> set white_space \<Longrightarrow> trim_left (l @ x) = trim_left x"
  by (induction l) simp_all

lemma trim_left_keeps:
  "c \<notin> set white_space \<Longrightarrow> \<exists>ys. trim_left (xs @ c # zs) = ys @ c # zs"
proof (induction xs)
  case Nil
  then show ?case by simp
next
  case (Cons x xs)
  then obtain ys where ys: "trim_left (xs @ c # zs) = ys @ c # zs" by blast
  show ?case
  proof (cases "x \<in> set white_space")
    case True
    with ys show ?thesis by simp
  next
    case False
    then have "trim_left ((x # xs) @ c # zs) = (x # xs) @ c # zs" by simp
    then show ?thesis by blast
  qed
qed

lemma trimmed_white:
  assumes "set l \<subseteq> set white_space" "set r \<subseteq> set white_space"
  shows "trimmed (l @ s @ r) = trimmed s"
proof -
  have rr: "set (rev r) \<subseteq> set white_space" using assms(2) by simp
  have left: "trim_left (l @ s @ r) = trim_left (s @ r)"
    using assms(1) by (rule trim_left_white)
  show ?thesis
  proof (cases "set s \<subseteq> set white_space")
    case True
    then have "set (s @ r) \<subseteq> set white_space" using assms(2) by simp
    then have "trim_left ((s @ r) @ []) = trim_left []" by (rule trim_left_white)
    moreover have "trim_left (s @ []) = trim_left []" using True by (rule trim_left_white)
    ultimately show ?thesis by (simp add: trimmed_def left)
  next
    case False
    then obtain c where c: "c \<in> set s" "c \<notin> set white_space" by blast
    have keep: "trim_left (u @ r) = trim_left u @ r" if "c \<in> set u" for u
      using that c(2) by (induction u) auto
    have "trim_left (rev (trim_left s @ r)) = trim_left (rev r @ rev (trim_left s))" by simp
    also have "\<dots> = trim_left (rev (trim_left s))" using rr by (rule trim_left_white)
    finally show ?thesis by (simp add: trimmed_def left keep [OF c(1)])
  qed
qed

lemma trimmed_marked:
  assumes "c \<notin> set white_space"
  shows "\<exists>rest'. trimmed (CHR ''0'' # c # rest) = CHR ''0'' # c # rest'"
proof -
  have zero: "CHR ''0'' \<notin> set white_space" by code_simp
  then have "trim_left (CHR ''0'' # c # rest) = CHR ''0'' # c # rest" by simp
  moreover obtain ys where "trim_left (rev rest @ c # [CHR ''0'']) = ys @ c # [CHR ''0'']"
    using trim_left_keeps [OF assms] by blast
  ultimately have "trimmed (CHR ''0'' # c # rest) = CHR ''0'' # c # rev ys"
    by (simp add: trimmed_def)
  then show ?thesis by blast
qed

lemma detect_base_marked:
  assumes "c \<notin> set white_space" "marked small capital [CHR ''0'', c]"
  shows "marked small capital (trimmed (CHR ''0'' # c # rest))"
  using trimmed_marked [OF assms(1), of rest] assms(2) by auto

lemma prefix_letters:
  "CHR ''b'' \<notin> set white_space" "CHR ''B'' \<notin> set white_space"
  "CHR ''o'' \<notin> set white_space" "CHR ''O'' \<notin> set white_space"
  "CHR ''x'' \<notin> set white_space" "CHR ''X'' \<notin> set white_space"
  by code_simp+

lemma detect_base_prefix:
  "detect_base (CHR ''0'' # CHR ''b'' # rest) = 2"
  "detect_base (CHR ''0'' # CHR ''B'' # rest) = 2"
  "detect_base (CHR ''0'' # CHR ''o'' # rest) = 8"
  "detect_base (CHR ''0'' # CHR ''O'' # rest) = 8"
  "detect_base (CHR ''0'' # CHR ''x'' # rest) = 16"
  "detect_base (CHR ''0'' # CHR ''X'' # rest) = 16"
proof -
  have t: "\<exists>rest'. trimmed (CHR ''0'' # c # rest) = CHR ''0'' # c # rest'"
    if "c \<notin> set white_space" for c
    using that by (rule trimmed_marked)
  show "detect_base (CHR ''0'' # CHR ''b'' # rest) = 2"
    using t [OF prefix_letters(1)] by (auto simp: detect_base_refines detect_base_spec_def)
  show "detect_base (CHR ''0'' # CHR ''B'' # rest) = 2"
    using t [OF prefix_letters(2)] by (auto simp: detect_base_refines detect_base_spec_def)
  show "detect_base (CHR ''0'' # CHR ''o'' # rest) = 8"
    using t [OF prefix_letters(3)] by (auto simp: detect_base_refines detect_base_spec_def)
  show "detect_base (CHR ''0'' # CHR ''O'' # rest) = 8"
    using t [OF prefix_letters(4)] by (auto simp: detect_base_refines detect_base_spec_def)
  show "detect_base (CHR ''0'' # CHR ''x'' # rest) = 16"
    using t [OF prefix_letters(5)] by (auto simp: detect_base_refines detect_base_spec_def)
  show "detect_base (CHR ''0'' # CHR ''X'' # rest) = 16"
    using t [OF prefix_letters(6)] by (auto simp: detect_base_refines detect_base_spec_def)
qed

lemma detect_base_trims:
  assumes "set l \<subseteq> set white_space" "set r \<subseteq> set white_space"
  shows "detect_base (l @ s @ r) = detect_base s"
  by (simp add: detect_base_refines detect_base_spec_def trimmed_white [OF assms])

lemma detect_base_examples:
  "detect_base ''101'' = 2" "detect_base ''0x1F'' = 16" "detect_base ''89'' = 10"
  "detect_base ''Z'' = 0" "detect_base ''  101 '' = 2" "detect_base '' 0X1F'' = 16"
  "detect_base ''0B102'' = 2" "detect_base ''0Oxyz'' = 8" "detect_base ''-17'' = 8"
  "detect_base ''-1f'' = 16" "detect_base ''1 0'' = 0" "detect_base ''-'' = 0"
  "detect_base [] = 0"
  by code_simp+

text \<open>
  C8: \<open>detect_base\<close> is the classifier of the specification on every string: it trims
  white space, answers 2, 8 or 16 on a string marked \<open>0b\<close>, \<open>0o\<close> or \<open>0x\<close>, in small or
  capital letters, and otherwise classifies the body (the string without one leading
  minus sign) as binary, else octal, else decimal, else hexadecimal, else 0. White space
  around a string does not change the answer; a marked string is answered whatever
  follows the mark; \<open>101\<close> is 2, \<open>0x1F\<close> is 16, \<open>89\<close> is 10 and \<open>Z\<close> is 0, also with
  white space around them and with a capital mark.
\<close>

theorem detect_base_priority:
  "detect_base s = detect_base_spec s \<and>
   (set l \<subseteq> set white_space \<and> set r \<subseteq> set white_space \<longrightarrow>
      detect_base (l @ s @ r) = detect_base s) \<and>
   detect_base (CHR ''0'' # CHR ''b'' # rest) = 2 \<and>
   detect_base (CHR ''0'' # CHR ''B'' # rest) = 2 \<and>
   detect_base (CHR ''0'' # CHR ''o'' # rest) = 8 \<and>
   detect_base (CHR ''0'' # CHR ''O'' # rest) = 8 \<and>
   detect_base (CHR ''0'' # CHR ''x'' # rest) = 16 \<and>
   detect_base (CHR ''0'' # CHR ''X'' # rest) = 16 \<and>
   detect_base ''101'' = 2 \<and> detect_base ''0x1F'' = 16 \<and> detect_base ''89'' = 10 \<and>
   detect_base ''Z'' = 0 \<and>
   detect_base ''  101 '' = 2 \<and> detect_base '' 0X1F'' = 16 \<and> detect_base ''0B102'' = 2 \<and>
   detect_base ''0Oxyz'' = 8 \<and> detect_base ''-17'' = 8 \<and> detect_base ''-1f'' = 16 \<and>
   detect_base ''1 0'' = 0 \<and> detect_base ''-'' = 0 \<and> detect_base [] = 0"
  using detect_base_refines [of s] detect_base_trims [of l r s] detect_base_prefix [of rest]
    detect_base_examples
  by simp

theorem detect_base_priority_witness:
  "set [CHR 0x09, CHR 0x20] \<subseteq> set white_space \<and> set [CHR 0x0A] \<subseteq> set white_space \<and>
   detect_base ([CHR 0x09, CHR 0x20] @ ''0X1F'' @ [CHR 0x0A]) = 16 \<and>
   detect_base_spec ''0X1F'' = 16"
proof -
  have h: "set [CHR 0x09, CHR 0x20] \<subseteq> set white_space" "set [CHR 0x0A] \<subseteq> set white_space"
    by code_simp+
  have v: "detect_base ''0X1F'' = 16" by code_simp
  show ?thesis
    using h v detect_base_priority [of "''0X1F''" "[CHR 0x09, CHR 0x20]" "[CHR 0x0A]" "[]"]
    by simp
qed

section \<open>The converters without a trace\<close>

text \<open>
  With \<open>show_steps=False\<close>, the default, \<open>step_num\<close> is never bound, and the first
  iteration of the conversion loop reads it: every nonzero input raises
  UnboundLocalError, in the generic converter and in the three fixed-base ones.
\<close>

declare dec_to_base_loop.simps [simp del]
declare shift_loop.simps [simp del]
declare bit_length_nat.simps [simp del]
declare str_nat.simps [simp del]

lemma index_py_BASE_DIGITS:
  "0 \<le> r \<Longrightarrow> r < 16 \<Longrightarrow> index_py BASE_DIGITS r = Inr (BASE_DIGITS ! nat r)"
  by (simp add: index_py_def BASE_DIGITS_def)

lemma index_py_HEX_DIGITS:
  "0 \<le> r \<Longrightarrow> r < 16 \<Longrightarrow> index_py HEX_DIGITS r = Inr (HEX_DIGITS ! nat r)"
  by (simp add: index_py_def HEX_DIGITS_def)

lemma dec_to_base_loop_unbound:
  assumes "0 < w" "2 \<le> base" "base \<le> 16"
  shows "dec_to_base_loop show_steps base None w digits steps = Inl UnboundLocalError"
proof -
  have "0 \<le> w mod base" "w mod base < 16"
    using assms by (auto intro: order.strict_trans2 [OF pos_mod_bound])
  then show ?thesis
    using assms by (subst dec_to_base_loop.simps) (simp add: index_py_BASE_DIGITS)
qed

lemma dec_to_base_plain_raises:
  assumes "n \<noteq> 0" "2 \<le> base" "base \<le> 16"
  shows "dec_to_base n base False = Inl UnboundLocalError"
  using assms
  by (simp add: dec_to_base_def MIN_BASE_def MAX_BASE_def dec_to_base_loop_unbound)

lemma and_15_bounds: "0 < (w::int) \<Longrightarrow> 0 \<le> w AND 15 \<and> w AND 15 < 16"
  by (smt (verit) AND_lower AND_upper2)

lemma shift_loop_unbound_str:
  assumes "0 < w" "0 < shift"
  shows "shift_loop show_steps msk shift str_digit row None w chars steps = Inl UnboundLocalError"
  using assms by (subst shift_loop.simps) (simp add: str_digit_def)

lemma shift_loop_unbound_hex:
  assumes "0 < w" "0 < shift"
  shows "shift_loop show_steps 15 shift hex_digit_of row None w chars steps = Inl UnboundLocalError"
  using assms and_15_bounds [of w]
  by (subst shift_loop.simps) (simp add: hex_digit_of_def index_py_HEX_DIGITS)

lemma bit_length_nat_bound: "n < 2 ^ bit_length_nat n"
proof (induction n rule: bit_length_nat.induct)
  case (1 n)
  show ?case
  proof (cases "n = 0")
    case True
    then show ?thesis by (simp add: bit_length_nat.simps)
  next
    case False
    with 1 have "n div 2 < 2 ^ bit_length_nat (n div 2)" by simp
    then have "n < 2 * 2 ^ bit_length_nat (n div 2)" by linarith
    with False show ?thesis by (subst bit_length_nat.simps) simp
  qed
qed

lemma twos_complement_positive:
  assumes "n < 0"
  shows "0 < push_bit (bit_length n + 1) 1 + n"
proof -
  have "nat \<bar>n\<bar> < 2 ^ bit_length n"
    unfolding bit_length_def by (rule bit_length_nat_bound)
  then have "\<bar>n\<bar> < 2 ^ bit_length n"
    by (metis nat_less_iff abs_ge_zero of_nat_numeral of_nat_power)
  then show ?thesis using assms by (simp add: push_bit_eq_mult)
qed

lemma dec_to_bin_plain_raises:
  assumes "n \<noteq> 0"
  shows "dec_to_bin n False = Inl UnboundLocalError"
  using assms twos_complement_positive [of n]
  by (simp add: dec_to_bin_def shift_loop_unbound_str Let_def)

lemma dec_to_oct_plain_raises:
  assumes "n \<noteq> 0"
  shows "dec_to_oct n False = Inl UnboundLocalError"
  using assms by (simp add: dec_to_oct_def shift_loop_unbound_str Let_def)

lemma dec_to_hex_plain_raises:
  assumes "n \<noteq> 0"
  shows "dec_to_hex n False = Inl UnboundLocalError"
  using assms by (simp add: dec_to_hex_def shift_loop_unbound_hex Let_def)

lemma trunc_of_int: "trunc (of_int i) = i"
  by (simp add: trunc_def)

lemma trunc_three_halves: "trunc (3 / 2) = 1"
  unfolding trunc_def by (simp add: floor_eq_iff)

lemma float_integer_raises:
  assumes "i \<noteq> 0" "2 \<le> base" "base \<le> 16"
  shows "dec_to_base_float rnd (Finite (of_int i)) base p False = Inl UnboundLocalError"
proof (cases "i < 0")
  case True
  then have "\<bar>rat_of_int i\<bar> = of_int (- i)" by simp
  then have "trunc \<bar>rat_of_int i\<bar> = - i" using trunc_of_int by metis
  with assms True show ?thesis
    by (simp add: dec_to_base_float_def MIN_BASE_def MAX_BASE_def dec_to_base_plain_raises)
next
  case False
  with assms show ?thesis
    by (simp add: dec_to_base_float_def MIN_BASE_def MAX_BASE_def dec_to_base_plain_raises
        trunc_of_int)
qed

lemma invalid_base_rejected:
  assumes "base < 2 \<or> 16 < base"
  shows "base_to_dec s base show_steps = Inl ValueError"
    and "n \<noteq> 0 \<Longrightarrow> dec_to_base n base show_steps = Inl ValueError"
    and "\<not> float_is_zero x \<Longrightarrow> dec_to_base_float rnd x base p show_steps = Inl ValueError"
  using assms
  by (auto simp: base_to_dec_def dec_to_base_def dec_to_base_float_def MIN_BASE_def MAX_BASE_def)


text \<open>
  C1: the round trip \<open>base_to_dec(dec_to_base(n, b), b) == n\<close> needs the numeral of
  \<open>n\<close>. At \<open>n = 5\<close>, \<open>b = 2\<close> the call \<open>dec_to_base(5, 2)\<close> returns no numeral: it raises
  UnboundLocalError.
\<close>

theorem dec_to_base_default_raises:
  "dec_to_base 5 2 False = Inl UnboundLocalError"
  by (rule dec_to_base_plain_raises) simp_all

text \<open>
  C2: \<open>dec_to_bin(-1)\<close> is claimed to be the string \<open>-11\<close>. The call raises
  UnboundLocalError, while the same call with \<open>show_steps=True\<close> returns \<open>-11\<close>.
\<close>

theorem dec_to_bin_minus_one_raises:
  "dec_to_bin (- 1) False = Inl UnboundLocalError \<and>
   value_of (projr (dec_to_bin (- 1) True)) = ''-11''"
proof
  show "dec_to_bin (- 1) False = Inl UnboundLocalError"
    by (rule dec_to_bin_plain_raises) simp
  show "value_of (projr (dec_to_bin (- 1) True)) = ''-11''"
    by code_simp
qed

text \<open>
  C5: a base outside [2, 16] is claimed to be rejected on every input, 0 included. With
  the input 0, \<open>dec_to_base\<close> and \<open>dec_to_base_float\<close> return before they look at the
  base: base 17 is accepted.
\<close>

theorem zero_skips_base_check:
  "dec_to_base 0 17 False = Inr (Plain ''0'') \<and>
   dec_to_base 0 17 True =
     Inr (Traced ''0'' [[Lit ''0 in decimal is 0 in base '', IntF 17 0]]) \<and>
   dec_to_base_float rnd (Finite 0) 17 10 False = Inr (Plain ''0.0'')"
  by (simp add: dec_to_base_def dec_to_base_float_def)

text \<open>
  C7: \<open>dec_to_base_float(1.5, 2, 10)\<close> is claimed to produce a fractional expansion. Its
  integer part 1 goes through \<open>dec_to_base(1, 2)\<close>, which raises UnboundLocalError,
  whatever the rounding of the float operations.
\<close>

theorem dec_to_base_float_fraction_raises:
  "dec_to_base_float rnd (Finite (3 / 2)) 2 10 False = Inl UnboundLocalError"
  by (simp add: dec_to_base_float_def MIN_BASE_def MAX_BASE_def trunc_three_halves
      dec_to_base_plain_raises)

text \<open>
  C9: \<open>dec_to_base_float(5.0, 2, 10)\<close> is claimed to be \<open>101.0\<close>. The call raises
  UnboundLocalError in the conversion of the integer part 5.
\<close>

theorem dec_to_base_float_whole_raises:
  "dec_to_base_float rnd (Finite 5) 2 10 False = Inl UnboundLocalError"
  using trunc_of_int [of 5]
  by (simp add: dec_to_base_float_def MIN_BASE_def MAX_BASE_def dec_to_base_plain_raises)

section \<open>The generic converters with a trace\<close>

text \<open>
  With \<open>show_steps=True\<close> the loops run to their end. \<open>dec_to_base\<close> produces the
  remainders of the repeated division, one row per remainder; \<open>base_to_dec\<close> sums the
  positional values, one row per digit.
\<close>

declare lsd_digits.simps [simp del]

lemma lsd_digits_stop: "w \<le> 0 \<or> base < 2 \<Longrightarrow> lsd_digits base w = []"
  by (subst lsd_digits.simps) simp

lemma lsd_digits_step:
  "0 < w \<Longrightarrow> 2 \<le> base \<Longrightarrow> lsd_digits base w = (w mod base) # lsd_digits base (w div base)"
  by (subst lsd_digits.simps) simp

lemma is_row_dec_to_base_row [simp]: "is_row (dec_to_base_row k w base r d)"
  by (simp add: dec_to_base_row_def)

lemma row_number_dec_to_base_row [simp]: "row_number (dec_to_base_row k w base r d) = int k"
  by (simp add: dec_to_base_row_def)

lemma row_digit_dec_to_base_row [simp]: "row_digit (dec_to_base_row k w base r d) = [d]"
  by (simp add: dec_to_base_row_def row_digit_def)

lemma dec_to_base_loop_traced:
  assumes "2 \<le> base" "base \<le> 16"
  shows "\<exists>rows. dec_to_base_loop True base (Some k) w digits steps =
            Inr (digits @ map digit_char (lsd_digits base w), steps @ rows) \<and>
          list_all is_row rows \<and>
          map row_digit rows = map (\<lambda>r. [digit_char r]) (lsd_digits base w) \<and>
          map row_number rows = map int [k..<k + length (lsd_digits base w)]"
  using assms
proof (induction base w arbitrary: k digits steps rule: lsd_digits.induct)
  case (1 base w)
  show ?case
  proof (cases "w \<le> 0")
    case True
    then show ?thesis
      by (subst dec_to_base_loop.simps) (simp add: lsd_digits_stop)
  next
    case False
    then have pos: "0 < w" by simp
    let ?r = "w mod base"
    have r: "0 \<le> ?r" "?r < 16"
      using 1 pos by (auto intro: order.strict_trans2 [OF pos_mod_bound])
    let ?row = "dec_to_base_row k w base ?r (digit_char ?r)"
    from 1 pos obtain rows where rows:
      "dec_to_base_loop True base (Some (Suc k)) (w div base) (digits @ [digit_char ?r])
         (steps @ [?row]) =
       Inr ((digits @ [digit_char ?r]) @ map digit_char (lsd_digits base (w div base)),
            (steps @ [?row]) @ rows)"
      "list_all is_row rows"
      "map row_digit rows = map (\<lambda>r. [digit_char r]) (lsd_digits base (w div base))"
      "map row_number rows = map int [Suc k..<Suc k + length (lsd_digits base (w div base))]"
      by (metis not_le)
    have "dec_to_base_loop True base (Some k) w digits steps =
          dec_to_base_loop True base (Some (Suc k)) (w div base) (digits @ [digit_char ?r])
            (steps @ [?row])"
      using pos 1(2) r
      by (subst dec_to_base_loop.simps)
         (simp add: index_py_def BASE_DIGITS_def digit_char_def)
    moreover have ds: "lsd_digits base w = ?r # lsd_digits base (w div base)"
      using pos 1(2) by (rule lsd_digits_step)
    moreover have "map int [k..<k + length (lsd_digits base w)] =
        int k # map int [Suc k..<Suc k + length (lsd_digits base (w div base))]"
      unfolding ds by (simp add: upt_rec)
    ultimately have
      "dec_to_base_loop True base (Some k) w digits steps =
         Inr (digits @ map digit_char (lsd_digits base w), steps @ (?row # rows))"
      "list_all is_row (?row # rows)"
      "map row_digit (?row # rows) = map (\<lambda>r. [digit_char r]) (lsd_digits base w)"
      "map row_number (?row # rows) = map int [k..<k + length (lsd_digits base w)]"
      using rows by simp_all
    then show ?thesis by blast
  qed
qed

lemma digit_table:
  "list_all (\<lambda>r. str_index BASE_DIGITS (digit_char (int r)) = Inr (int r) \<and>
                  str_index HEX_DIGITS (digit_char (int r)) = Inr (int r) \<and>
                  upper_char (digit_char (int r)) = digit_char (int r) \<and>
                  digit_char (int r) \<noteq> CHR ''-'' \<and>
                  (digit_char (int r) = CHR ''0'') = (r = 0) \<and>
                  BASE_DIGITS ! r = digit_char (int r) \<and>
                  HEX_DIGITS ! r = digit_char (int r) \<and>
                  (r < 10 \<longrightarrow> str_int (int r) = [digit_char (int r)] \<and>
                     int_of_char (digit_char (int r)) = Inr (int r))) [0..<16]"
  by code_simp

lemma digit_facts:
  assumes "0 \<le> r" "r < 16"
  shows "str_index BASE_DIGITS (digit_char r) = Inr r"
    and "str_index HEX_DIGITS (digit_char r) = Inr r"
    and "upper_char (digit_char r) = digit_char r"
    and "digit_char r \<noteq> CHR ''-''"
    and "(digit_char r = CHR ''0'') = (r = 0)"
    and "HEX_DIGITS ! nat r = digit_char r"
    and "r < 10 \<Longrightarrow> str_int r = [digit_char r]"
    and "r < 10 \<Longrightarrow> int_of_char (digit_char r) = Inr r"
proof -
  have "nat r \<in> set [0..<16]" using assms by simp
  with digit_table have
    "str_index BASE_DIGITS (digit_char (int (nat r))) = Inr (int (nat r)) \<and>
     str_index HEX_DIGITS (digit_char (int (nat r))) = Inr (int (nat r)) \<and>
     upper_char (digit_char (int (nat r))) = digit_char (int (nat r)) \<and>
     digit_char (int (nat r)) \<noteq> CHR ''-'' \<and>
     (digit_char (int (nat r)) = CHR ''0'') = (nat r = 0) \<and>
     BASE_DIGITS ! nat r = digit_char (int (nat r)) \<and>
     HEX_DIGITS ! nat r = digit_char (int (nat r)) \<and>
     (nat r < 10 \<longrightarrow> str_int (int (nat r)) = [digit_char (int (nat r))] \<and>
        int_of_char (digit_char (int (nat r))) = Inr (int (nat r)))"
    unfolding list_all_iff by blast
  moreover have "int (nat r) = r" using assms by simp
  ultimately show "str_index BASE_DIGITS (digit_char r) = Inr r"
    and "str_index HEX_DIGITS (digit_char r) = Inr r"
    and "upper_char (digit_char r) = digit_char r"
    and "digit_char r \<noteq> CHR ''-''"
    and "(digit_char r = CHR ''0'') = (r = 0)"
    and "HEX_DIGITS ! nat r = digit_char r"
    and "r < 10 \<Longrightarrow> str_int r = [digit_char r]"
    and "r < 10 \<Longrightarrow> int_of_char (digit_char r) = Inr r"
    using assms by auto
qed

lemma digit_char_in_class:
  assumes "0 \<le> r" "r < base" "base \<le> 16"
  shows "digit_char r \<in> set (take (nat base) BASE_DIGITS)"
proof -
  have "nat r < length (take (nat base) BASE_DIGITS)"
    using assms by (simp add: BASE_DIGITS_def)
  then have "take (nat base) BASE_DIGITS ! nat r \<in> set (take (nat base) BASE_DIGITS)"
    by (rule nth_mem)
  moreover have "take (nat base) BASE_DIGITS ! nat r = BASE_DIGITS ! nat r"
    using assms by simp
  ultimately show ?thesis by (simp add: digit_char_def)
qed

lemma class_char_is_digit:
  assumes "c \<in> set (take (nat base) BASE_DIGITS)" "base \<le> 16"
  shows "\<exists>r. 0 \<le> r \<and> r < base \<and> c = digit_char r"
proof -
  from assms(1) obtain i where i: "i < length (take (nat base) BASE_DIGITS)"
    "c = take (nat base) BASE_DIGITS ! i"
    by (metis in_set_conv_nth)
  then have "i < nat base" by simp
  with i have "c = digit_char (int i)" by (simp add: digit_char_def)
  moreover have "int i < base" using \<open>i < nat base\<close> by simp
  ultimately show ?thesis by (intro exI [of _ "int i"]) simp
qed

lemma to_dec_loop_result:
  assumes "\<forall>d\<in>set ds. dvf d = Inr (val d)"
  shows "to_dec_loop dvf row show_steps base i ds acc steps =
           Inr (acc + pos_value base i (map val ds),
                if show_steps
                then steps @ map (\<lambda>(j, d). row j d (val d) (val d * base ^ j))
                                 (zip [i..<i + length ds] ds)
                else steps)"
  using assms
proof (induction ds arbitrary: i acc steps)
  case Nil
  then show ?case by simp
next
  case (Cons d ds)
  have "[i..<i + length (d # ds)] = i # [Suc i..<Suc i + length ds]"
    by (simp add: upt_rec)
  with Cons show ?case by (simp add: algebra_simps)
qed

lemma filter_rows: "list_all is_row rows \<Longrightarrow> filter is_row rows = rows"
  by (simp add: list_all_iff)

lemma dec_to_base_traced:
  assumes "n \<noteq> 0" "2 \<le> base" "base \<le> 16"
  shows "\<exists>steps. dec_to_base n base True =
           Inr (Traced ((if n < 0 then ''-'' else []) @
                        rev (map digit_char (lsd_digits base \<bar>n\<bar>))) steps) \<and>
         map row_digit (filter is_row steps) =
           map (\<lambda>r. [digit_char r]) (lsd_digits base \<bar>n\<bar>) \<and>
         map row_number (filter is_row steps) =
           map int [1..<1 + length (lsd_digits base \<bar>n\<bar>)] \<and>
         last steps =
           [Lit ''Final result: '', IntF n 0, Lit '' in decimal = '',
            StrF ((if n < 0 then ''-'' else []) @
                  rev (map digit_char (lsd_digits base \<bar>n\<bar>))) 0,
            Lit '' in base '', IntF base 0]"
proof -
  let ?pre = "(if n < 0
               then [[Lit ''Converting negative number: '', IntF n 0],
                     [Lit ''Taking absolute value: '', IntF \<bar>n\<bar> 0]]
               else []) @
              [[Lit ''Starting decimal to base '', IntF base 0,
                Lit '' conversion of '', IntF \<bar>n\<bar> 0, Lit '':''],
               [Lit ''Step | Decimal | Divided by Base | Remainder | Digit''],
               [Lit ''---- | ------- | --------------- | --------- | -----'']]"
  from dec_to_base_loop_traced [OF assms(2,3), of 1 "\<bar>n\<bar>" "[]" ?pre]
  obtain rows where rows:
    "dec_to_base_loop True base (Some 1) \<bar>n\<bar> [] ?pre =
       Inr (map digit_char (lsd_digits base \<bar>n\<bar>), ?pre @ rows)"
    "list_all is_row rows"
    "map row_digit rows = map (\<lambda>r. [digit_char r]) (lsd_digits base \<bar>n\<bar>)"
    "map row_number rows = map int [1..<1 + length (lsd_digits base \<bar>n\<bar>)]"
    by auto
  have abs: "(if n < 0 then \<bar>n\<bar> else n) = \<bar>n\<bar>" by simp
  show ?thesis
    using assms rows filter_rows [OF rows(2)]
    by (simp add: dec_to_base_def MIN_BASE_def MAX_BASE_def Let_def abs del: abs_if)
qed

lemma is_row_base_to_dec_row [simp]: "is_row (base_to_dec_row i d dv pv)"
  by (simp add: base_to_dec_row_def)

lemma row_number_base_to_dec_row [simp]: "row_number (base_to_dec_row i d dv pv) = int i"
  by (simp add: base_to_dec_row_def)

lemma row_digit_base_to_dec_row [simp]: "row_digit (base_to_dec_row i d dv pv) = [d]"
  by (simp add: base_to_dec_row_def row_digit_def)

lemma base_to_dec_rows:
  assumes "length js = length ds"
  shows "filter is_row (map (\<lambda>(j, d). base_to_dec_row j d (vf d) (pf j d)) (zip js ds)) =
           map (\<lambda>(j, d). base_to_dec_row j d (vf d) (pf j d)) (zip js ds)"
    and "map row_digit (map (\<lambda>(j, d). base_to_dec_row j d (vf d) (pf j d)) (zip js ds)) =
           map (\<lambda>d. [d]) ds"
    and "map row_number (map (\<lambda>(j, d). base_to_dec_row j d (vf d) (pf j d)) (zip js ds)) =
           map int js"
  using assms by (induction js ds rule: list_induct2) simp_all

lemma valid_digit_val:
  assumes "c \<in> set (take (nat base) BASE_DIGITS)" "base \<le> 16"
  shows "str_index BASE_DIGITS c = Inr (digit_val c)"
proof -
  from class_char_is_digit [OF assms] obtain r where "0 \<le> r" "r < base" "c = digit_char r"
    by blast
  with assms(2) have "str_index BASE_DIGITS c = Inr r"
    using digit_facts(1) [of r] by simp
  then show ?thesis by (simp add: digit_val_def)
qed

lemma base_to_dec_traced:
  assumes "2 \<le> base" "base \<le> 16"
    and "fullmatch_class (take (nat base) BASE_DIGITS) (upper (body_of s))"
  shows "\<exists>steps. base_to_dec s base True =
           Inr (Traced ((if startswith s ''-'' then - 1 else 1) *
                        pos_value base 0 (map digit_val (rev (upper (body_of s))))) steps) \<and>
         map row_digit (filter is_row steps) = map (\<lambda>d. [d]) (rev (upper (body_of s))) \<and>
         map row_number (filter is_row steps) = map int [0..<length (body_of s)] \<and>
         last steps =
           [Lit ''Final result: '', StrF s 0, Lit '' in base '', IntF base 0, Lit '' = '',
            IntF ((if startswith s ''-'' then - 1 else 1) *
                  pos_value base 0 (map digit_val (rev (upper (body_of s))))) 0,
            Lit '' in decimal'']"
proof -
  let ?ds = "rev (upper (body_of s))"
  define rows where
    "rows = map (\<lambda>(j, d). base_to_dec_row j d (digit_val d) (digit_val d * base ^ j))
                (zip [0..<0 + length ?ds] ?ds)"
  have valid: "\<forall>d\<in>set ?ds. str_index BASE_DIGITS d = Inr (digit_val d)"
    using assms(3) valid_digit_val [OF _ assms(2)]
    by (auto simp: fullmatch_class_def list_all_iff)
  have loop: "to_dec_loop (str_index BASE_DIGITS) base_to_dec_row True base 0 ?ds 0 pre =
              Inr (pos_value base 0 (map digit_val ?ds), pre @ rows)" for pre
    unfolding rows_def using to_dec_loop_result [OF valid, of base_to_dec_row True base 0 0 pre]
    by simp
  have len: "length [0..<0 + length ?ds] = length ?ds" by simp
  have props: "filter is_row rows = rows" "map row_digit rows = map (\<lambda>d. [d]) ?ds"
    "map row_number rows = map int [0..<length (body_of s)]"
    unfolding rows_def using base_to_dec_rows [OF len] by (simp_all add: upper_def)
  show ?thesis
  proof (cases "startswith s ''-''")
    case True
    then have b: "body_of s = tl s" by (simp add: body_of_def)
    show ?thesis
      using assms True loop props unfolding b
      by (simp add: base_to_dec_def MIN_BASE_def MAX_BASE_def Let_def)
  next
    case False
    then have b: "body_of s = s" by (simp add: body_of_def)
    show ?thesis
      using assms False loop props unfolding b
      by (simp add: base_to_dec_def MIN_BASE_def MAX_BASE_def Let_def)
  qed
qed

lemma base_to_dec_plain:
  assumes "2 \<le> base" "base \<le> 16"
    and "fullmatch_class (take (nat base) BASE_DIGITS) (upper (body_of s))"
  shows "base_to_dec s base False =
           Inr (Plain ((if startswith s ''-'' then - 1 else 1) *
                        pos_value base 0 (map digit_val (rev (upper (body_of s))))))"
proof -
  let ?ds = "rev (upper (body_of s))"
  have valid: "\<forall>d\<in>set ?ds. str_index BASE_DIGITS d = Inr (digit_val d)"
    using assms(3) valid_digit_val [OF _ assms(2)]
    by (auto simp: fullmatch_class_def list_all_iff)
  have loop: "to_dec_loop (str_index BASE_DIGITS) base_to_dec_row False base 0 ?ds 0 pre =
              Inr (pos_value base 0 (map digit_val ?ds), pre)" for pre
    using to_dec_loop_result [OF valid, of base_to_dec_row False base 0 0 pre] by simp
  show ?thesis
  proof (cases "startswith s ''-''")
    case True
    then have b: "body_of s = tl s" by (simp add: body_of_def)
    show ?thesis
      using assms True loop unfolding b
      by (simp add: base_to_dec_def MIN_BASE_def MAX_BASE_def Let_def)
  next
    case False
    then have b: "body_of s = s" by (simp add: body_of_def)
    show ?thesis
      using assms False loop unfolding b
      by (simp add: base_to_dec_def MIN_BASE_def MAX_BASE_def Let_def)
  qed
qed

lemma lsd_digits_bound:
  "2 \<le> base \<Longrightarrow> r \<in> set (lsd_digits base w) \<Longrightarrow> 0 \<le> r \<and> r < base"
proof (induction base w rule: lsd_digits.induct)
  case (1 base w)
  show ?case
  proof (cases "w \<le> 0")
    case True
    with 1(3) show ?thesis by (simp add: lsd_digits_stop)
  next
    case False
    with 1 show ?thesis by (auto simp: lsd_digits_step [of w base])
  qed
qed

lemma startswith_minus: "startswith s ''-'' = (s \<noteq> [] \<and> hd s = CHR ''-'')"
  by (cases s) (simp_all add: startswith_def)

lemma body_of_digits:
  assumes "2 \<le> base" "base \<le> 16"
  shows "body_of ((if n < 0 then ''-'' else []) @ rev (map digit_char (lsd_digits base w))) =
         rev (map digit_char (lsd_digits base w))"
proof (cases "n < 0")
  case True
  then show ?thesis by (simp add: body_of_def startswith_def)
next
  case False
  let ?ds = "lsd_digits base w"
  have "\<not> startswith (rev (map digit_char ?ds)) ''-''"
  proof (cases "?ds = []")
    case True
    then show ?thesis by (simp add: startswith_def)
  next
    case nonempty: False
    then have "last ?ds \<in> set ?ds" by simp
    then have "0 \<le> last ?ds \<and> last ?ds < 16"
      using lsd_digits_bound [OF assms(1)] assms(2) by fastforce
    then have "digit_char (last ?ds) \<noteq> CHR ''-''" using digit_facts(4) by blast
    with nonempty show ?thesis by (simp add: startswith_minus hd_rev last_map)
  qed
  with False show ?thesis by (simp add: body_of_def)
qed




section \<open>Digits and values\<close>

text \<open>
  The remainders of the repeated division are the digits of the value: their positional
  sum is the value, and dividing a positional sum again gives the digits back without the
  zeros at the most significant end.
\<close>

lemma pos_value_Suc: "pos_value base (Suc i) ds = base * pos_value base i ds"
  by (induction ds arbitrary: i) (simp_all add: algebra_simps)

lemma pos_value_Cons: "pos_value base 0 (d # ds) = d + base * pos_value base 0 ds"
  by (simp add: pos_value_Suc)

lemma pos_value_lsd_digits:
  "0 \<le> w \<Longrightarrow> 2 \<le> base \<Longrightarrow> pos_value base 0 (lsd_digits base w) = w"
proof (induction base w rule: lsd_digits.induct)
  case (1 base w)
  show ?case
  proof (cases "w = 0")
    case True
    then show ?thesis by (simp add: lsd_digits_stop)
  next
    case False
    with 1 have pos: "0 < w" by simp
    then have "0 \<le> w div base" using 1(3) by (simp add: pos_imp_zdiv_nonneg_iff)
    with 1 pos have "pos_value base 0 (lsd_digits base (w div base)) = w div base" by simp
    with pos 1(3) show ?thesis
      by (simp add: lsd_digits_step pos_value_Suc)
  qed
qed

lemma pos_value_nonneg:
  "0 \<le> base \<Longrightarrow> \<forall>d\<in>set ds. 0 \<le> d \<Longrightarrow> 0 \<le> pos_value base i ds"
  by (induction ds arbitrary: i) simp_all

lemma drop_high_zeros_Cons:
  "drop_high_zeros (d # ds) =
     (if drop_high_zeros ds = [] then (if d = 0 then [] else [d]) else d # drop_high_zeros ds)"
  by (auto simp: drop_high_zeros_def dropWhile_append)

lemma pos_value_zero_iff:
  assumes "2 \<le> base" "\<forall>d\<in>set ds. 0 \<le> d \<and> d < base"
  shows "pos_value base 0 ds = 0 \<longleftrightarrow> drop_high_zeros ds = []"
  using assms(2)
proof (induction ds)
  case Nil
  then show ?case by (simp add: drop_high_zeros_def)
next
  case (Cons d ds)
  then have ih: "pos_value base 0 ds = 0 \<longleftrightarrow> drop_high_zeros ds = []" by simp
  have nn: "0 \<le> pos_value base 0 ds"
    using Cons.prems assms(1) by (intro pos_value_nonneg) auto
  have d: "0 \<le> d" using Cons.prems by simp
  have "d + base * pos_value base 0 ds = 0 \<longleftrightarrow> d = 0 \<and> pos_value base 0 ds = 0"
  proof
    assume eq: "d + base * pos_value base 0 ds = 0"
    have "0 \<le> base * pos_value base 0 ds" using nn assms(1) by simp
    with eq d have "d = 0" "base * pos_value base 0 ds = 0" by linarith+
    with assms(1) show "d = 0 \<and> pos_value base 0 ds = 0" by simp
  qed simp
  with ih show ?case by (simp add: pos_value_Suc drop_high_zeros_Cons)
qed

lemma lsd_digits_pos_value:
  assumes "2 \<le> base" "\<forall>d\<in>set ds. 0 \<le> d \<and> d < base"
  shows "lsd_digits base (pos_value base 0 ds) = drop_high_zeros ds"
  using assms(2)
proof (induction ds)
  case Nil
  then show ?case by (simp add: lsd_digits_stop drop_high_zeros_def)
next
  case (Cons d ds)
  then have ih: "lsd_digits base (pos_value base 0 ds) = drop_high_zeros ds" by simp
  have bounds: "\<forall>x\<in>set ds. 0 \<le> x \<and> x < base" and d: "0 \<le> d" "d < base"
    using Cons.prems by simp_all
  have nn: "0 \<le> pos_value base 0 ds"
    using bounds assms(1) by (intro pos_value_nonneg) auto
  let ?v = "d + base * pos_value base 0 ds"
  show ?case
  proof (cases "?v = 0")
    case True
    then have "pos_value base 0 (d # ds) = 0" by (simp add: pos_value_Suc)
    then have "drop_high_zeros (d # ds) = []"
      using pos_value_zero_iff [OF assms(1) Cons.prems] by simp
    with True show ?thesis by (simp add: pos_value_Suc lsd_digits_stop)
  next
    case False
    have "0 \<le> base * pos_value base 0 ds" using nn assms(1) by simp
    with False d have pos: "0 < ?v" by linarith
    have m: "?v mod base = d" using d by simp
    have dv: "?v div base = pos_value base 0 ds" using d assms(1) by simp
    have "lsd_digits base ?v = d # drop_high_zeros ds"
      using lsd_digits_step [OF pos assms(1)] m dv ih by simp
    moreover have "drop_high_zeros (d # ds) = d # drop_high_zeros ds"
    proof (cases "drop_high_zeros ds = []")
      case True
      then have "pos_value base 0 ds = 0"
        using pos_value_zero_iff [OF assms(1) bounds] by simp
      with False have "d \<noteq> 0" by simp
      with True show ?thesis by (simp add: drop_high_zeros_Cons)
    next
      case False
      then show ?thesis by (simp add: drop_high_zeros_Cons)
    qed
    ultimately show ?thesis by (simp add: pos_value_Suc)
  qed
qed

section \<open>The fixed-base converters with a trace\<close>

text \<open>
  With \<open>show_steps=True\<close> the mask-and-shift loops produce the remainders of the division
  by 2, 8 and 16, so the three converters return the numeral of the generic converter,
  except \<open>dec_to_bin\<close> on a negative integer.
\<close>

lemma two_le_power: "0 < shift \<Longrightarrow> (2::int) \<le> 2 ^ shift"
  by (rule self_le_power) simp_all

lemma and_low_bits: "(w::int) AND (2 ^ shift - 1) = w mod 2 ^ shift"
  by (metis mask_eq_exp_minus_1 take_bit_eq_mask take_bit_eq_mod)

lemma shift_loop_traced:
  assumes "0 < shift" "msk = 2 ^ shift - 1"
    and "\<And>r. 0 \<le> r \<Longrightarrow> r < 2 ^ shift \<Longrightarrow> digit_of r = Inr (dstr r)"
  shows "\<exists>rows. shift_loop True msk shift digit_of row (Some k) w chars steps =
            Inr (chars @ map dstr (lsd_digits (2 ^ shift) w), steps @ rows)"
proof -
  define base :: int where "base = 2 ^ shift"
  have base2: "2 \<le> base" unfolding base_def using assms(1) by (rule two_le_power)
  have "\<exists>rows. shift_loop True msk shift digit_of row (Some k) w chars steps =
            Inr (chars @ map dstr (lsd_digits base w), steps @ rows)"
    using base_def
  proof (induction base w arbitrary: k chars steps rule: lsd_digits.induct)
    case (1 base w)
    have base2: "2 \<le> base" using 1(2) assms(1) by (simp add: two_le_power)
    show ?case
    proof (cases "w \<le> 0")
      case True
      then show ?thesis
        by (subst shift_loop.simps) (simp add: lsd_digits_stop)
    next
      case False
      then have pos: "0 < w" by simp
      let ?r = "w mod base"
      have r: "0 \<le> ?r" "?r < 2 ^ shift" using base2 1(2) by simp_all
      have andr: "w AND msk = ?r" using assms(2) 1(2) by (simp add: and_low_bits)
      let ?row = "row k w ?r (dstr ?r)"
      from 1(1) [of "Suc k" "chars @ [dstr ?r]" "steps @ [?row]"] pos base2 1(2)
      obtain rows where rows:
        "shift_loop True msk shift digit_of row (Some (Suc k)) (w div base)
           (chars @ [dstr ?r]) (steps @ [?row]) =
         Inr ((chars @ [dstr ?r]) @ map dstr (lsd_digits base (w div base)),
              (steps @ [?row]) @ rows)"
        by (metis not_le)
      have "shift_loop True msk shift digit_of row (Some k) w chars steps =
            shift_loop True msk shift digit_of row (Some (Suc k)) (w div base)
              (chars @ [dstr ?r]) (steps @ [?row])"
        using pos assms(1) r andr 1(2)
        by (subst shift_loop.simps) (simp add: assms(3) drop_bit_eq_div)
      with rows have
        "shift_loop True msk shift digit_of row (Some k) w chars steps =
           Inr (chars @ map dstr (lsd_digits base w), steps @ (?row # rows))"
        using lsd_digits_step [OF pos base2] by simp
      then show ?thesis by blast
    qed
  qed
  then show ?thesis unfolding base_def .
qed

lemma concat_rev_singletons:
  "\<forall>r\<in>set ds. f r = [g r] \<Longrightarrow> concat (rev (map f ds)) = rev (map g ds)"
  by (induction ds) simp_all

lemma lsd_digits_small:
  assumes "2 \<le> base" "base \<le> 16" "r \<in> set (lsd_digits base w)"
  shows "0 \<le> r" "r < 16" "r < base"
  using lsd_digits_bound [OF assms(1,3)] assms(2) by auto

lemma shift_loop_digits:
  assumes "0 < shift" "msk = 2 ^ shift - 1"
    and "\<And>r. 0 \<le> r \<Longrightarrow> r < 2 ^ shift \<Longrightarrow> digit_of r = Inr (dstr r)"
  shows "map_sum id fst (shift_loop True msk shift digit_of row (Some k) w chars steps) =
           Inr (chars @ map dstr (lsd_digits (2 ^ shift) w))"
proof -
  have "\<exists>rows. shift_loop True msk shift digit_of row (Some k) w chars steps =
            Inr (chars @ map dstr (lsd_digits (2 ^ shift) w), steps @ rows)"
    by (rule shift_loop_traced) (use assms in auto)
  then show ?thesis by auto
qed

lemma oct_loop_digits:
  "map_sum id fst (shift_loop True 7 3 str_digit row (Some k) w chars steps) =
     Inr (chars @ map str_int (lsd_digits 8 w))"
  using shift_loop_digits [where shift = 3 and msk = 7 and digit_of = str_digit
      and dstr = str_int]
  by (simp add: str_digit_def)

lemma bin_loop_digits:
  "map_sum id fst (shift_loop True 1 (Suc 0) str_digit row (Some k) w chars steps) =
     Inr (chars @ map str_int (lsd_digits 2 w))"
  using shift_loop_digits [where shift = "Suc 0" and msk = 1 and digit_of = str_digit
      and dstr = str_int]
  by (simp add: str_digit_def)

lemma hex_loop_digits:
  "map_sum id fst (shift_loop True 15 4 hex_digit_of row (Some k) w chars steps) =
     Inr (chars @ map (\<lambda>r. [digit_char r]) (lsd_digits 16 w))"
  using shift_loop_digits [where shift = 4 and msk = 15 and digit_of = hex_digit_of
      and dstr = "\<lambda>r. [digit_char r]"]
  by (simp add: hex_digit_of_def index_py_HEX_DIGITS digit_facts(6))

lemma result_of_finish:
  "result_of (case L of Inl e \<Rightarrow> Inl e
              | Inr (cs, st) \<Rightarrow> Inr (dec_to_finish show_steps neg n name cs st)) =
   (case map_sum id fst L of
      Inl e \<Rightarrow> Inl e
    | Inr cs \<Rightarrow> Inr ((if neg then ''-'' else []) @ concat (rev cs)))"
  by (cases L) (auto simp: result_of_def dec_to_finish_def Let_def)

lemma small_digit_strings:
  assumes "2 \<le> base" "base \<le> 10"
  shows "concat (rev (map str_int (lsd_digits base w))) = rev (map digit_char (lsd_digits base w))"
proof (rule concat_rev_singletons, rule ballI)
  fix r assume "r \<in> set (lsd_digits base w)"
  then have "0 \<le> r \<and> r < base" using lsd_digits_bound assms(1) by blast
  then show "str_int r = [digit_char r]" using assms(2) digit_facts(7) by simp
qed

lemma dec_to_oct_traced: "result_of (dec_to_oct n True) = Inr (numeral_of 8 n)"
proof (cases "n = 0")
  case True
  then show ?thesis by (simp add: dec_to_oct_def numeral_of_def result_of_def)
next
  case False
  then show ?thesis
    by (simp add: dec_to_oct_def Let_def result_of_finish oct_loop_digits numeral_of_def
        small_digit_strings)
qed

lemma dec_to_hex_traced: "result_of (dec_to_hex n True) = Inr (numeral_of 16 n)"
proof (cases "n = 0")
  case True
  then show ?thesis by (simp add: dec_to_hex_def numeral_of_def result_of_def)
next
  case False
  then show ?thesis
    by (simp add: dec_to_hex_def Let_def result_of_finish hex_loop_digits numeral_of_def
        concat_rev_singletons)
qed

lemma dec_to_bin_traced_nonneg:
  "0 \<le> n \<Longrightarrow> result_of (dec_to_bin n True) = Inr (numeral_of 2 n)"
proof (cases "n = 0")
  case True
  then show ?thesis by (simp add: dec_to_bin_def numeral_of_def result_of_def)
next
  case False
  assume "0 \<le> n"
  with False show ?thesis
    by (simp add: dec_to_bin_def Let_def result_of_finish bin_loop_digits numeral_of_def
        small_digit_strings)
qed

lemma dec_to_bin_traced_negative:
  "n < 0 \<Longrightarrow> result_of (dec_to_bin n True) =
     Inr (CHR ''-'' # rev (map digit_char (lsd_digits 2 (push_bit (bit_length n + 1) 1 + n))))"
  by (simp add: dec_to_bin_def Let_def result_of_finish bin_loop_digits small_digit_strings)

lemma dec_to_base_result:
  assumes "2 \<le> base" "base \<le> 16"
  shows "result_of (dec_to_base n base True) = Inr (numeral_of base n)"
proof (cases "n = 0")
  case True
  then show ?thesis by (simp add: dec_to_base_def numeral_of_def result_of_def)
next
  case False
  with dec_to_base_traced [OF False assms] show ?thesis
    by (auto simp: result_of_def numeral_of_def)
qed

lemma upper_char_minus: "\<forall>c. (upper_char c = CHR ''-'') = (c = CHR ''-'')"
  by code_simp

lemma class_table:
  "list_all (\<lambda>c. int_of_char c = Inr (digit_val c) \<and> upper_char c = c) ''01234567''"
  by code_simp

lemma hex_class_table:
  "list_all (\<lambda>c. upper_char c \<in> set BASE_DIGITS) ''0123456789ABCDEFabcdef''"
  by code_simp

lemma startswith_upper: "startswith (upper s) ''-'' = startswith s ''-''"
  using upper_char_minus by (cases s) (auto simp: startswith_def upper_def)

lemma body_of_upper: "body_of (upper s) = upper (body_of s)"
  by (cases s) (simp_all add: body_of_def startswith_upper, simp_all add: upper_def)

lemma to_dec_finish_result:
  "result_of (case L of Inl e \<Rightarrow> Inl e
              | Inr (dv, st) \<Rightarrow> Inr (to_dec_finish show_steps neg orig name dv st)) =
   (case map_sum id fst L of
      Inl e \<Rightarrow> Inl e
    | Inr dv \<Rightarrow> Inr ((if neg then - 1 else 1) * dv))"
  by (cases L) (auto simp: result_of_def to_dec_finish_def Let_def)

lemma to_dec_loop_value:
  assumes "\<forall>d\<in>set ds. dvf d = Inr (digit_val d)"
  shows "map_sum id fst (to_dec_loop dvf row show_steps base i ds acc steps) =
           Inr (acc + pos_value base i (map digit_val ds))"
  using to_dec_loop_result [OF assms] by simp

lemma octal_chars:
  assumes "fullmatch_class cls t" "set cls \<subseteq> set ''01234567''"
  shows "\<forall>d\<in>set (rev t). int_of_char d = Inr (digit_val d)" and "upper t = t"
proof -
  have all: "\<forall>d\<in>set t. int_of_char d = Inr (digit_val d) \<and> upper_char d = d"
    using assms class_table unfolding fullmatch_class_def list_all_iff by blast
  then show "\<forall>d\<in>set (rev t). int_of_char d = Inr (digit_val d)" by simp
  from all show "upper t = t" by (simp add: upper_def map_idI)
qed

lemma bin_to_dec_result:
  assumes "fullmatch_class ''01'' (body_of s)"
  shows "result_of (bin_to_dec s show_steps) = Inr (value_in 2 s)"
proof -
  note oc = octal_chars [OF assms]
  have loop: "map_sum id fst (to_dec_loop int_of_char bin_to_dec_row show_steps 2 0
                (rev (body_of s)) 0 pre) = Inr (pos_value 2 0 (map digit_val (rev (body_of s))))"
    for pre
    using to_dec_loop_value [OF oc(1)] by simp
  show ?thesis
  proof (cases "startswith s ''-''")
    case True
    then have b: "body_of s = tl s" by (simp add: body_of_def)
    show ?thesis using assms True loop oc(2) unfolding b
      by (simp add: bin_to_dec_def Let_def to_dec_finish_result value_in_def body_of_def)
  next
    case False
    then have b: "body_of s = s" by (simp add: body_of_def)
    show ?thesis using assms False loop oc(2) unfolding b
      by (simp add: bin_to_dec_def Let_def to_dec_finish_result value_in_def body_of_def)
  qed
qed

lemma oct_to_dec_result:
  assumes "fullmatch_class ''01234567'' (body_of s)"
  shows "result_of (oct_to_dec s show_steps) = Inr (value_in 8 s)"
proof -
  note oc = octal_chars [OF assms]
  have loop: "map_sum id fst (to_dec_loop int_of_char oct_to_dec_row show_steps 8 0
                (rev (body_of s)) 0 pre) = Inr (pos_value 8 0 (map digit_val (rev (body_of s))))"
    for pre
    using to_dec_loop_value [OF oc(1)] by simp
  show ?thesis
  proof (cases "startswith s ''-''")
    case True
    then have b: "body_of s = tl s" by (simp add: body_of_def)
    show ?thesis using assms True loop oc(2) unfolding b
      by (simp add: oct_to_dec_def Let_def to_dec_finish_result value_in_def body_of_def)
  next
    case False
    then have b: "body_of s = s" by (simp add: body_of_def)
    show ?thesis using assms False loop oc(2) unfolding b
      by (simp add: oct_to_dec_def Let_def to_dec_finish_result value_in_def body_of_def)
  qed
qed

lemma hex_value_table:
  "list_all (\<lambda>c. str_index HEX_DIGITS c = Inr (digit_val c)) ''0123456789ABCDEF''"
  by code_simp

lemma hex_digit_val:
  assumes "c \<in> set ''0123456789ABCDEF''"
  shows "str_index HEX_DIGITS c = Inr (digit_val c)"
  using assms hex_value_table unfolding list_all_iff by blast

lemma tl_upper: "tl (upper s) = upper (tl s)"
  by (simp add: upper_def map_tl)

lemma hex_to_dec_result:
  assumes "fullmatch_class ''0123456789ABCDEF'' (upper (body_of s))"
  shows "result_of (hex_to_dec s show_steps) = Inr (value_in 16 s)"
proof -
  let ?u = "upper (body_of s)"
  have valid: "\<forall>d\<in>set (rev ?u). str_index HEX_DIGITS d = Inr (digit_val d)"
    using assms hex_digit_val unfolding fullmatch_class_def list_all_iff by simp
  have loop: "map_sum id fst (to_dec_loop (str_index HEX_DIGITS) hex_to_dec_row show_steps 16 0
                (rev ?u) 0 pre) = Inr (pos_value 16 0 (map digit_val (rev ?u)))"
    for pre
    using to_dec_loop_value [OF valid] by simp
  show ?thesis
  proof (cases "startswith s ''-''")
    case True
    then have b: "body_of s = tl s" by (simp add: body_of_def)
    show ?thesis using assms True loop unfolding b
      by (simp add: hex_to_dec_def Let_def to_dec_finish_result value_in_def startswith_upper
          tl_upper body_of_def)
  next
    case False
    then have b: "body_of s = s" by (simp add: body_of_def)
    show ?thesis using assms False loop unfolding b
      by (simp add: hex_to_dec_def Let_def to_dec_finish_result value_in_def startswith_upper
          body_of_def)
  qed
qed

section \<open>Printing and parsing are inverse\<close>

lemma digit_val_digit_char: "0 \<le> r \<Longrightarrow> r < 16 \<Longrightarrow> digit_val (digit_char r) = r"
  by (simp add: digit_val_def digit_facts(1))

lemma lsd_digits_nonempty: "0 < w \<Longrightarrow> 2 \<le> base \<Longrightarrow> lsd_digits base w \<noteq> []"
  by (simp add: lsd_digits_step)

lemma numeral_body:
  assumes "2 \<le> b" "b \<le> 16"
  shows "body_of (numeral_of b v) =
           (if v = 0 then ''0'' else rev (map digit_char (lsd_digits b \<bar>v\<bar>)))"
    and "startswith (numeral_of b v) ''-'' = (v < 0)"
proof -
  let ?ds = "lsd_digits b \<bar>v\<bar>"
  have body: "body_of ((if v < 0 then ''-'' else []) @ rev (map digit_char ?ds)) =
              rev (map digit_char ?ds)"
    using assms by (rule body_of_digits)
  show "body_of (numeral_of b v) = (if v = 0 then ''0'' else rev (map digit_char ?ds))"
  proof (cases "v = 0")
    case True
    then show ?thesis by (simp add: numeral_of_def body_of_def startswith_def)
  next
    case False
    with body show ?thesis by (simp add: numeral_of_def)
  qed
  show "startswith (numeral_of b v) ''-'' = (v < 0)"
  proof (cases "v = 0")
    case True
    then show ?thesis by (simp add: numeral_of_def startswith_def)
  next
    case False
    show ?thesis
    proof (cases "v < 0")
      case True
      then show ?thesis by (simp add: numeral_of_def startswith_def)
    next
      case nonneg: False
      with False have "0 < \<bar>v\<bar>" by simp
      then have ne: "rev (map digit_char ?ds) \<noteq> []"
        using lsd_digits_nonempty assms(1) by simp
      from body nonneg have "body_of (rev (map digit_char ?ds)) = rev (map digit_char ?ds)"
        by simp
      then have "\<not> startswith (rev (map digit_char ?ds)) ''-''"
        using ne by (cases "rev (map digit_char ?ds)") (auto simp: body_of_def split: if_splits)
      with False nonneg show ?thesis by (simp add: numeral_of_def)
    qed
  qed
qed

lemma numeral_digits_valid:
  assumes "2 \<le> b" "b \<le> 16"
  shows "fullmatch_class (take (nat b) BASE_DIGITS) (body_of (numeral_of b v))"
    and "upper (body_of (numeral_of b v)) = body_of (numeral_of b v)"
    and "map digit_val (rev (body_of (numeral_of b v))) =
           (if v = 0 then [0] else lsd_digits b \<bar>v\<bar>)"
proof -
  let ?ds = "lsd_digits b \<bar>v\<bar>"
  have zero: "digit_char 0 = CHR ''0''" using digit_facts(5) [of 0] by simp
  have small: "\<forall>r\<in>set ?ds. 0 \<le> r \<and> r < 16 \<and> r < b"
    using lsd_digits_small [OF assms] by blast
  show "fullmatch_class (take (nat b) BASE_DIGITS) (body_of (numeral_of b v))"
  proof (cases "v = 0")
    case True
    have "digit_char 0 \<in> set (take (nat b) BASE_DIGITS)"
      using assms by (intro digit_char_in_class) simp_all
    with True zero show ?thesis
      by (simp add: numeral_body(1) [OF assms] fullmatch_class_def)
  next
    case False
    then have "0 < \<bar>v\<bar>" by simp
    then have "?ds \<noteq> []" using lsd_digits_nonempty assms(1) by simp
    moreover have "\<forall>r\<in>set ?ds. digit_char r \<in> set (take (nat b) BASE_DIGITS)"
      using small assms(2) digit_char_in_class by blast
    ultimately show ?thesis
      using False by (simp add: numeral_body(1) [OF assms] fullmatch_class_def list_all_iff)
  qed
  show "upper (body_of (numeral_of b v)) = body_of (numeral_of b v)"
  proof (cases "v = 0")
    case True
    have "upper_char (digit_char 0) = digit_char 0" by (rule digit_facts(3)) simp_all
    with True zero show ?thesis by (simp add: numeral_body(1) [OF assms] upper_def)
  next
    case False
    have "\<forall>r\<in>set ?ds. upper_char (digit_char r) = digit_char r"
      using small digit_facts(3) by blast
    with False show ?thesis
      by (simp add: numeral_body(1) [OF assms] upper_def rev_map [symmetric])
  qed
  show "map digit_val (rev (body_of (numeral_of b v))) = (if v = 0 then [0] else ?ds)"
  proof (cases "v = 0")
    case True
    have "digit_val (digit_char 0) = 0" by (rule digit_val_digit_char) simp_all
    with True zero show ?thesis by (simp add: numeral_body(1) [OF assms])
  next
    case False
    have "\<forall>r\<in>set ?ds. digit_val (digit_char r) = r"
      using small digit_val_digit_char by blast
    then have "map (digit_val \<circ> digit_char) ?ds = ?ds" by (simp add: map_idI)
    with False show ?thesis by (simp add: numeral_body(1) [OF assms])
  qed
qed

lemma value_in_numeral_of:
  assumes "2 \<le> b" "b \<le> 16"
  shows "value_in b (numeral_of b v) = v"
proof (cases "v = 0")
  case True
  then show ?thesis
    using numeral_digits_valid(2,3) [OF assms, of v] by (simp add: value_in_def)
next
  case False
  have "pos_value b 0 (lsd_digits b \<bar>v\<bar>) = \<bar>v\<bar>"
    using assms(1) by (intro pos_value_lsd_digits) simp_all
  with False show ?thesis
    using numeral_digits_valid(2,3) [OF assms, of v] numeral_body(2) [OF assms, of v]
    by (simp add: value_in_def)
qed

lemma numeral_of_value_in:
  assumes "2 \<le> b" "b \<le> 16"
    and valid: "fullmatch_class (take (nat b) BASE_DIGITS) (upper (body_of s))"
  shows "numeral_of b (value_in b s) = canonical s"
proof -
  let ?u = "upper (body_of s)"
  let ?ds = "map digit_val (rev ?u)"
  let ?z = "dropWhile (\<lambda>c. c = CHR ''0'') ?u"
  have chars: "\<forall>c\<in>set ?u. 0 \<le> digit_val c \<and> digit_val c < b \<and>
                 digit_char (digit_val c) = c \<and> (digit_val c = 0) = (c = CHR ''0'')"
  proof
    fix c assume "c \<in> set ?u"
    then have "c \<in> set (take (nat b) BASE_DIGITS)"
      using valid by (simp add: fullmatch_class_def list_all_iff)
    from class_char_is_digit [OF this assms(2)] obtain r where
      r: "0 \<le> r" "r < b" "c = digit_char r" by blast
    then have "r < 16" using assms(2) by simp
    with r show "0 \<le> digit_val c \<and> digit_val c < b \<and>
                 digit_char (digit_val c) = c \<and> (digit_val c = 0) = (c = CHR ''0'')"
      using digit_val_digit_char [of r] digit_facts(5) [of r] by simp
  qed
  then have bounds: "\<forall>d\<in>set ?ds. 0 \<le> d \<and> d < b" by simp
  let ?pv = "pos_value b 0 ?ds"
  have nn: "0 \<le> ?pv" using bounds assms(1) by (intro pos_value_nonneg) auto
  have digits: "lsd_digits b ?pv = drop_high_zeros ?ds"
    using assms(1) bounds by (rule lsd_digits_pos_value)
  have "dropWhile (\<lambda>d. d = 0) (map digit_val ?u) =
        map digit_val (dropWhile (\<lambda>c. digit_val c = 0) ?u)"
    by (simp add: dropWhile_map comp_def)
  also have "dropWhile (\<lambda>c. digit_val c = 0) ?u = ?z"
    using chars by (intro dropWhile_cong) auto
  finally have dz: "dropWhile (\<lambda>d. d = 0) (map digit_val ?u) = map digit_val ?z" .
  have "\<forall>c\<in>set ?z. digit_char (digit_val c) = c"
    using chars set_dropWhileD by fast
  then have restore: "map digit_char (map digit_val ?z) = ?z"
    by (simp add: map_idI)
  have shown: "rev (map digit_char (lsd_digits b ?pv)) = ?z"
    using dz restore by (simp add: digits drop_high_zeros_def rev_map)
  have zero: "?pv = 0 \<longleftrightarrow> ?z = []"
  proof -
    have "?pv = 0 \<longleftrightarrow> drop_high_zeros ?ds = []"
      using assms(1) bounds by (rule pos_value_zero_iff)
    also have "\<dots> \<longleftrightarrow> map digit_val ?z = []"
      using dz by (simp add: drop_high_zeros_def rev_map)
    finally show ?thesis by simp
  qed
  show ?thesis
  proof (cases "?pv = 0")
    case True
    with zero show ?thesis
      by (simp add: numeral_of_def value_in_def canonical_def Let_def)
  next
    case False
    with nn have pos: "0 < ?pv" by simp
    with zero have "?z \<noteq> []" by simp
    with pos shown show ?thesis
      by (auto simp: numeral_of_def value_in_def canonical_def Let_def)
  qed
qed

lemma value_in_unsigned_nonneg:
  assumes "2 \<le> b" "b \<le> 16" "\<not> startswith s ''-''"
    and "fullmatch_class (take (nat b) BASE_DIGITS) (upper (body_of s))"
  shows "0 \<le> value_in b s"
proof -
  have "\<forall>c\<in>set (upper (body_of s)). 0 \<le> digit_val c"
  proof
    fix c assume "c \<in> set (upper (body_of s))"
    then have "c \<in> set (take (nat b) BASE_DIGITS)"
      using assms(4) by (simp add: fullmatch_class_def list_all_iff)
    from class_char_is_digit [OF this assms(2)] obtain r where
      "0 \<le> r" "r < b" "c = digit_char r" by blast
    then show "0 \<le> digit_val c" using digit_val_digit_char [of r] assms(2) by simp
  qed
  then have "0 \<le> pos_value b 0 (map digit_val (rev (upper (body_of s))))"
    using assms(1) by (intro pos_value_nonneg) auto
  with assms(3) show ?thesis by (simp add: value_in_def)
qed

lemma cross_convert_result:
  "result_of (cross_convert p q from_name to_name s True) =
     (case result_of (p s True) of Inl e \<Rightarrow> Inl e | Inr v \<Rightarrow> result_of (q v True))"
  by (auto simp: cross_convert_def result_of_def split: sum.splits)

lemma there_and_back_result:
  "there_and_back forth back s =
     (case result_of (forth s True) of Inl e \<Rightarrow> Inl e | Inr t \<Rightarrow> result_of (back t True))"
  by (auto simp: there_and_back_def result_of_def split: sum.splits)

lemma there_and_back_generic:
  assumes "2 \<le> b1" "b1 \<le> 16"
    and valid: "fullmatch_class (take (nat b1) BASE_DIGITS) (upper (body_of s))"
    and p1: "result_of (p1 s True) = Inr (value_in b1 s)"
    and q2: "result_of (q2 (value_in b1 s) True) = Inr t"
    and p2: "result_of (p2 t True) = Inr (value_in b1 s)"
    and q1: "result_of (q1 (value_in b1 s) True) = Inr (numeral_of b1 (value_in b1 s))"
  shows "there_and_back (cross_convert p1 q2 n1 n2) (cross_convert p2 q1 n3 n4) s =
           Inr (canonical s)"
  using p1 q2 p2 q1 numeral_of_value_in [OF assms(1,2) valid]
  by (simp add: there_and_back_result cross_convert_result)

lemma class_literals:
  "take 2 BASE_DIGITS = ''01''"
  "take 8 BASE_DIGITS = ''01234567''"
  "take 16 BASE_DIGITS = ''0123456789ABCDEF''"
  by (simp_all add: BASE_DIGITS_def)

lemma unsigned_numeral:
  assumes "fullmatch_class cls s" "CHR ''-'' \<notin> set cls"
  shows "\<not> startswith s ''-''" and "body_of s = s"
proof -
  show "\<not> startswith s ''-''"
    using assms by (cases s) (auto simp: fullmatch_class_def startswith_def)
  then show "body_of s = s" by (simp add: body_of_def)
qed

lemma signed_numeral_body:
  assumes "fullmatch_signed cls s" "CHR ''-'' \<notin> set cls"
  shows "fullmatch_class cls (body_of s)"
  using assms fullmatch_signed_body [of cls s]
  by (auto simp: all_digits_def fullmatch_class_def list_all_iff)

lemma hex_upper_valid:
  assumes "fullmatch_class ''0123456789ABCDEFabcdef'' t"
  shows "fullmatch_class ''0123456789ABCDEF'' (upper t)"
proof -
  have "\<forall>c\<in>set t. upper_char c \<in> set BASE_DIGITS"
    using assms hex_class_table unfolding fullmatch_class_def list_all_iff by blast
  then show ?thesis
    using assms by (simp add: fullmatch_class_def list_all_iff upper_def BASE_DIGITS_def)
qed

lemma parse_bin_numeral: "result_of (bin_to_dec (numeral_of 2 v) True) = Inr v"
  using numeral_digits_valid(1) [of 2 v] value_in_numeral_of [of 2 v]
  by (simp add: bin_to_dec_result class_literals)

lemma parse_oct_numeral: "result_of (oct_to_dec (numeral_of 8 v) True) = Inr v"
  using numeral_digits_valid(1) [of 8 v] value_in_numeral_of [of 8 v]
  by (simp add: oct_to_dec_result class_literals)

lemma parse_hex_numeral: "result_of (hex_to_dec (numeral_of 16 v) True) = Inr v"
  using numeral_digits_valid(1,2) [of 16 v] value_in_numeral_of [of 16 v]
  by (simp add: hex_to_dec_result class_literals)

lemma bin_source:
  assumes "fullmatch_class ''01'' s"
  shows "fullmatch_class ''01'' (upper (body_of s))"
    and "result_of (bin_to_dec s True) = Inr (value_in 2 s)"
    and "result_of (dec_to_bin (value_in 2 s) True) = Inr (numeral_of 2 (value_in 2 s))"
proof -
  have u: "\<not> startswith s ''-''" "body_of s = s"
    using unsigned_numeral [OF assms] by simp_all
  have up: "upper s = s" using octal_chars(2) [OF assms] by auto
  show v: "fullmatch_class ''01'' (upper (body_of s))"
    using assms u up by simp
  show "result_of (bin_to_dec s True) = Inr (value_in 2 s)"
    using assms u by (simp add: bin_to_dec_result)
  have "0 \<le> value_in 2 s" using u(1) v by (intro value_in_unsigned_nonneg) (simp_all add: class_literals)
  then show "result_of (dec_to_bin (value_in 2 s) True) = Inr (numeral_of 2 (value_in 2 s))"
    by (rule dec_to_bin_traced_nonneg)
qed

lemma oct_source:
  assumes "fullmatch_class ''01234567'' (body_of s)"
  shows "fullmatch_class ''01234567'' (upper (body_of s))"
    and "result_of (oct_to_dec s True) = Inr (value_in 8 s)"
    and "\<not> startswith s ''-'' \<Longrightarrow> 0 \<le> value_in 8 s"
proof -
  have up: "upper (body_of s) = body_of s" using octal_chars(2) [OF assms] by auto
  show v: "fullmatch_class ''01234567'' (upper (body_of s))"
    using assms up by simp
  show "result_of (oct_to_dec s True) = Inr (value_in 8 s)"
    using assms by (simp add: oct_to_dec_result)
  show "\<not> startswith s ''-'' \<Longrightarrow> 0 \<le> value_in 8 s"
    using v by (intro value_in_unsigned_nonneg) (simp_all add: class_literals)
qed

lemma hex_source:
  assumes "fullmatch_class ''0123456789ABCDEFabcdef'' (body_of s)"
  shows "fullmatch_class ''0123456789ABCDEF'' (upper (body_of s))"
    and "result_of (hex_to_dec s True) = Inr (value_in 16 s)"
    and "\<not> startswith s ''-'' \<Longrightarrow> 0 \<le> value_in 16 s"
proof -
  show v: "fullmatch_class ''0123456789ABCDEF'' (upper (body_of s))"
    using hex_upper_valid [OF assms] .
  then show "result_of (hex_to_dec s True) = Inr (value_in 16 s)"
    by (simp add: hex_to_dec_result class_literals)
  show "\<not> startswith s ''-'' \<Longrightarrow> 0 \<le> value_in 16 s"
    using v by (intro value_in_unsigned_nonneg) (simp_all add: class_literals)
qed

text \<open>
  C3, as stated, fails on a numeral with a leading zero: the binary numeral \<open>00\<close> becomes
  the octal \<open>0\<close>, which comes back as the binary \<open>0\<close>. Both calls return, since the value
  is zero. Upper case does not identify \<open>00\<close> and \<open>0\<close>.
\<close>

theorem cross_roundtrip_counterexample:
  "bin_to_oct ''00'' False = Inr (Plain ''0'') \<and>
   oct_to_bin ''0'' False = Inr (Plain ''0'') \<and>
   upper ''00'' \<noteq> upper ''0''"
  by code_simp

text \<open>
  With a minus sign and base 2 on either side the round trip changes the value, because
  \<open>dec_to_bin\<close> prints a negative integer as a sign followed by a two's-complement
  pattern, which \<open>bin_to_dec\<close> reads as sign and magnitude.
\<close>

lemma negative_binary_quirk:
  "there_and_back oct_to_bin bin_to_oct ''-1'' = Inr ''-3'' \<and>
   there_and_back bin_to_oct oct_to_bin ''-1'' = Inr ''-11''"
  by code_simp

text \<open>
  C3, amended: for every ordered pair of distinct bases of 2, 8 and 16 and every valid
  numeral of the first base, unsigned when one of the two bases is 2 and optionally
  signed when the bases are 8 and 16, the cross conversion there and back with
  \<open>show_steps=True\<close> returns the canonical form of the numeral: its digits in upper case
  without leading zeros, \<open>0\<close> for the value zero, the sign kept on a nonzero value.
\<close>

theorem cross_roundtrip_canonical:
  "(fullmatch_class ''01'' s \<longrightarrow>
      there_and_back bin_to_oct oct_to_bin s = Inr (canonical s) \<and>
      there_and_back bin_to_hex hex_to_bin s = Inr (canonical s)) \<and>
   (fullmatch_class ''01234567'' s \<longrightarrow>
      there_and_back oct_to_bin bin_to_oct s = Inr (canonical s)) \<and>
   (fullmatch_class ''0123456789ABCDEFabcdef'' s \<longrightarrow>
      there_and_back hex_to_bin bin_to_hex s = Inr (canonical s)) \<and>
   (fullmatch_signed ''01234567'' s \<longrightarrow>
      there_and_back oct_to_hex hex_to_oct s = Inr (canonical s)) \<and>
   (fullmatch_signed ''0123456789ABCDEFabcdef'' s \<longrightarrow>
      there_and_back hex_to_oct oct_to_hex s = Inr (canonical s))"
proof (intro conjI impI)
  assume h: "fullmatch_class ''01'' s"
  show "there_and_back bin_to_oct oct_to_bin s = Inr (canonical s)"
    unfolding bin_to_oct_def oct_to_bin_def
    by (rule there_and_back_generic [where ?b1.0 = 2 and t = "numeral_of 8 (value_in 2 s)"])
       (simp_all add: class_literals bin_source [OF h] dec_to_oct_traced parse_oct_numeral)
  show "there_and_back bin_to_hex hex_to_bin s = Inr (canonical s)"
    unfolding bin_to_hex_def hex_to_bin_def
    by (rule there_and_back_generic [where ?b1.0 = 2 and t = "numeral_of 16 (value_in 2 s)"])
       (simp_all add: class_literals bin_source [OF h] dec_to_hex_traced parse_hex_numeral)
next
  assume h: "fullmatch_class ''01234567'' s"
  have u: "\<not> startswith s ''-''" "body_of s = s"
    using unsigned_numeral [OF h] by simp_all
  from h u have hb: "fullmatch_class ''01234567'' (body_of s)" by simp
  have nn: "0 \<le> value_in 8 s" using oct_source(3) [OF hb] u by simp
  show "there_and_back oct_to_bin bin_to_oct s = Inr (canonical s)"
    unfolding bin_to_oct_def oct_to_bin_def
    by (rule there_and_back_generic [where ?b1.0 = 8 and t = "numeral_of 2 (value_in 8 s)"])
       (simp_all add: class_literals oct_source [OF hb] dec_to_oct_traced parse_bin_numeral
          dec_to_bin_traced_nonneg [OF nn])
next
  assume h: "fullmatch_class ''0123456789ABCDEFabcdef'' s"
  have u: "\<not> startswith s ''-''" "body_of s = s"
    using unsigned_numeral [OF h] by simp_all
  from h u have hb: "fullmatch_class ''0123456789ABCDEFabcdef'' (body_of s)" by simp
  have nn: "0 \<le> value_in 16 s" using hex_source(3) [OF hb] u by simp
  show "there_and_back hex_to_bin bin_to_hex s = Inr (canonical s)"
    unfolding bin_to_hex_def hex_to_bin_def
    by (rule there_and_back_generic [where ?b1.0 = 16 and t = "numeral_of 2 (value_in 16 s)"])
       (simp_all add: class_literals hex_source [OF hb] dec_to_hex_traced parse_bin_numeral
          dec_to_bin_traced_nonneg [OF nn])
next
  assume h: "fullmatch_signed ''01234567'' s"
  then have hb: "fullmatch_class ''01234567'' (body_of s)"
    by (rule signed_numeral_body) simp
  show "there_and_back oct_to_hex hex_to_oct s = Inr (canonical s)"
    unfolding oct_to_hex_def hex_to_oct_def
    by (rule there_and_back_generic [where ?b1.0 = 8 and t = "numeral_of 16 (value_in 8 s)"])
       (simp_all add: class_literals oct_source [OF hb] dec_to_hex_traced dec_to_oct_traced parse_hex_numeral)
next
  assume h: "fullmatch_signed ''0123456789ABCDEFabcdef'' s"
  then have hb: "fullmatch_class ''0123456789ABCDEFabcdef'' (body_of s)"
    by (rule signed_numeral_body) simp
  show "there_and_back hex_to_oct oct_to_hex s = Inr (canonical s)"
    unfolding oct_to_hex_def hex_to_oct_def
    by (rule there_and_back_generic [where ?b1.0 = 16 and t = "numeral_of 8 (value_in 16 s)"])
       (simp_all add: class_literals hex_source [OF hb] dec_to_hex_traced dec_to_oct_traced parse_oct_numeral)
qed

theorem cross_roundtrip_canonical_witness:
  "fullmatch_class ''01'' ''0101'' \<and> fullmatch_class ''01234567'' ''0101'' \<and>
   fullmatch_class ''0123456789ABCDEFabcdef'' ''0101'' \<and>
   fullmatch_signed ''01234567'' ''0101'' \<and>
   fullmatch_signed ''0123456789ABCDEFabcdef'' ''0101'' \<and>
   there_and_back bin_to_oct oct_to_bin ''0101'' = Inr ''101'' \<and>
   there_and_back bin_to_hex hex_to_bin ''0101'' = Inr ''101'' \<and>
   there_and_back oct_to_bin bin_to_oct ''0101'' = Inr ''101'' \<and>
   there_and_back hex_to_bin bin_to_hex ''0101'' = Inr ''101'' \<and>
   there_and_back oct_to_hex hex_to_oct ''0101'' = Inr ''101'' \<and>
   there_and_back hex_to_oct oct_to_hex ''0101'' = Inr ''101''"
proof -
  have h: "fullmatch_class ''01'' ''0101''" "fullmatch_class ''01234567'' ''0101''"
    "fullmatch_class ''0123456789ABCDEFabcdef'' ''0101''"
    "fullmatch_signed ''01234567'' ''0101''"
    "fullmatch_signed ''0123456789ABCDEFabcdef'' ''0101''"
    by code_simp+
  have c: "canonical ''0101'' = ''101''" by code_simp
  show ?thesis
    using h cross_roundtrip_canonical [of "''0101''"] unfolding c by simp
qed

section \<open>What the converters compute with a trace\<close>

text \<open>
  With \<open>show_steps=True\<close> the conversions behave as the specification describes them:
  \<open>dec_to_base\<close> and \<open>base_to_dec\<close> are inverse on every integer and every base of
  [2, 16]; the fixed-base converters agree with the generic one on the non-negative
  integers; \<open>dec_to_bin\<close> prints a negative \<open>n\<close> as a minus sign followed by the binary
  digits of \<open>(1 << (bit_length(n) + 1)) + n\<close>. The fractional loop emits at least one and
  at most \<open>precision\<close> digits, and one half in base 2 is \<open>0.1\<close> as soon as the rounding
  leaves 0, 1/2 and 1 unchanged.
\<close>

lemma base_to_dec_result:
  assumes "2 \<le> base" "base \<le> 16"
    and "fullmatch_class (take (nat base) BASE_DIGITS) (upper (body_of s))"
  shows "result_of (base_to_dec s base show_steps) = Inr (value_in base s)"
proof (cases show_steps)
  case True
  with base_to_dec_traced [OF assms] show ?thesis
    by (auto simp: result_of_def value_in_def)
next
  case False
  with base_to_dec_plain [OF assms] show ?thesis
    by (simp add: result_of_def value_in_def)
qed

lemma dec_to_base_roundtrip_traced:
  assumes "2 \<le> b" "b \<le> 16"
  shows "result_of (dec_to_base n b True) = Inr (numeral_of b n)"
    and "result_of (base_to_dec (numeral_of b n) b show_steps) = Inr n"
proof -
  show "result_of (dec_to_base n b True) = Inr (numeral_of b n)"
    using assms by (rule dec_to_base_result)
  have "fullmatch_class (take (nat b) BASE_DIGITS) (upper (body_of (numeral_of b n)))"
    using numeral_digits_valid(1,2) [OF assms, of n] by simp
  then show "result_of (base_to_dec (numeral_of b n) b show_steps) = Inr n"
    using base_to_dec_result [OF assms] value_in_numeral_of [OF assms] by simp
qed

lemma fixed_base_agree_traced:
  "0 \<le> n \<Longrightarrow> result_of (dec_to_bin n True) = result_of (dec_to_base n 2 True)"
  "result_of (dec_to_oct n True) = result_of (dec_to_base n 8 True)"
  "result_of (dec_to_hex n True) = result_of (dec_to_base n 16 True)"
  by (simp_all add: dec_to_bin_traced_nonneg dec_to_oct_traced dec_to_hex_traced
      dec_to_base_result)

lemma fixed_base_agree_plain:
  "dec_to_bin n False = dec_to_base n 2 False"
  "dec_to_oct n False = dec_to_base n 8 False"
  "dec_to_hex n False = dec_to_base n 16 False"
proof -
  show "dec_to_bin n False = dec_to_base n 2 False"
  proof (cases "n = 0")
    case True
    then show ?thesis by (simp add: dec_to_bin_def dec_to_base_def)
  next
    case False
    then show ?thesis by (simp add: dec_to_bin_plain_raises dec_to_base_plain_raises)
  qed
  show "dec_to_oct n False = dec_to_base n 8 False"
  proof (cases "n = 0")
    case True
    then show ?thesis by (simp add: dec_to_oct_def dec_to_base_def)
  next
    case False
    then show ?thesis by (simp add: dec_to_oct_plain_raises dec_to_base_plain_raises)
  qed
  show "dec_to_hex n False = dec_to_base n 16 False"
  proof (cases "n = 0")
    case True
    then show ?thesis by (simp add: dec_to_hex_def dec_to_base_def)
  next
    case False
    then show ?thesis by (simp add: dec_to_hex_plain_raises dec_to_base_plain_raises)
  qed
qed

text \<open>
  C4: for every integer \<open>n \<ge> 0\<close> the fixed-base converters give what the generic
  converter gives at the corresponding base. Called as the claim writes them, with the
  default \<open>show_steps=False\<close>, \<open>dec_to_bin(n)\<close> and \<open>dec_to_base(n, 2)\<close> have the same
  outcome, and so have \<open>dec_to_oct(n)\<close> and \<open>dec_to_base(n, 8)\<close>, \<open>dec_to_hex(n)\<close> and
  \<open>dec_to_base(n, 16)\<close>: the string \<open>0\<close> at \<open>n = 0\<close>, the same exception elsewhere.
  With \<open>show_steps=True\<close> the numerals returned are the same: the numeral of \<open>n\<close> in
  base 2, 8 and 16.
\<close>

theorem fixed_base_wrappers_agree:
  "0 \<le> n \<Longrightarrow>
     dec_to_bin n False = dec_to_base n 2 False \<and>
     dec_to_oct n False = dec_to_base n 8 False \<and>
     dec_to_hex n False = dec_to_base n 16 False \<and>
     result_of (dec_to_bin n True) = result_of (dec_to_base n 2 True) \<and>
     result_of (dec_to_oct n True) = result_of (dec_to_base n 8 True) \<and>
     result_of (dec_to_hex n True) = result_of (dec_to_base n 16 True) \<and>
     result_of (dec_to_base n 2 True) = Inr (numeral_of 2 n) \<and>
     result_of (dec_to_base n 8 True) = Inr (numeral_of 8 n) \<and>
     result_of (dec_to_base n 16 True) = Inr (numeral_of 16 n)"
  by (simp add: fixed_base_agree_plain fixed_base_agree_traced dec_to_base_result)

theorem fixed_base_wrappers_agree_witness:
  "(0::int) \<le> 255 \<and>
   dec_to_bin 255 False = dec_to_base 255 2 False \<and>
   dec_to_oct 255 False = dec_to_base 255 8 False \<and>
   dec_to_hex 255 False = dec_to_base 255 16 False \<and>
   result_of (dec_to_bin 255 True) = Inr ''11111111'' \<and>
   result_of (dec_to_oct 255 True) = Inr ''377'' \<and>
   result_of (dec_to_hex 255 True) = Inr ''FF'' \<and>
   result_of (dec_to_base 255 2 True) = Inr ''11111111'' \<and>
   result_of (dec_to_base 255 8 True) = Inr ''377'' \<and>
   result_of (dec_to_base 255 16 True) = Inr ''FF''"
proof -
  have v: "numeral_of 2 255 = ''11111111''" "numeral_of 8 255 = ''377''"
    "numeral_of 16 255 = ''FF''"
    by code_simp+
  show ?thesis
    using fixed_base_wrappers_agree [of 255] unfolding v by simp
qed

lemma dec_to_bin_negative_traced:
  assumes "n < 0"
  shows "result_of (dec_to_bin n True) =
           Inr (CHR ''-'' # numeral_of 2 (2 ^ (bit_length n + 1) + n))"
proof -
  have "0 < push_bit (bit_length n + 1) 1 + n"
    using assms by (rule twos_complement_positive)
  then have pos: "0 < 2 ^ (bit_length n + 1) + n" by (simp add: push_bit_eq_mult)
  then have "numeral_of 2 (2 ^ (bit_length n + 1) + n) =
             rev (map digit_char (lsd_digits 2 (2 ^ (bit_length n + 1) + n)))"
    unfolding numeral_of_def by (simp only: abs_of_pos) simp
  with dec_to_bin_traced_negative [OF assms] show ?thesis
    by (simp add: push_bit_eq_mult)
qed

lemma frac_loop_length:
  "frac_loop rnd show_steps base left k x fr st = Inr (fr', st') \<Longrightarrow>
     length fr \<le> length fr' \<and> length fr' \<le> length fr + left \<and>
     (0 < left \<longrightarrow> length fr < length fr')"
proof (induction left arbitrary: k x fr st)
  case 0
  then show ?case by simp
next
  case (Suc left)
  let ?m = "rnd (x * of_int base)"
  let ?r = "rnd (?m - of_int (trunc ?m))"
  from Suc.prems obtain digit where digit: "index_py BASE_DIGITS (trunc ?m) = Inr digit"
    by (cases "index_py BASE_DIGITS (trunc ?m)") (simp_all add: Let_def)
  show ?case
  proof (cases "?r = 0")
    case True
    with Suc.prems digit have "fr' = fr @ [digit]" by (simp add: Let_def)
    then show ?thesis by simp
  next
    case False
    with Suc.prems digit obtain k' st0 where
      "frac_loop rnd show_steps base left k' ?r (fr @ [digit]) st0 = Inr (fr', st')"
      by (simp add: Let_def)
    from Suc.IH [OF this] show ?thesis by simp
  qed
qed

lemma dec_to_base_float_half:
  assumes "rnd 0 = 0" "rnd (1 / 2) = 1 / 2" "rnd 1 = 1"
  shows "dec_to_base_float rnd (Finite (1 / 2)) 2 10 False = Inr (Plain ''0.1'')"
proof -
  have t: "trunc (1 / 2) = 0" "trunc 1 = 1"
    unfolding trunc_def by (simp_all add: floor_eq_iff)
  have loop: "frac_loop rnd False 2 (Suc n) k (1 / 2) [] [] = Inr (''1'', [])" for n k
    by (simp add: assms t index_py_def BASE_DIGITS_def)
  have "nat 10 = Suc 9" by simp
  then have loop10: "frac_loop rnd False 2 (nat 10) k (1 / 2) [] [] = Inr (''1'', [])" for k
    using loop [of 9 k] by (simp only:)
  show ?thesis
    by (simp add: dec_to_base_float_def MIN_BASE_def MAX_BASE_def dec_to_base_def
        assms t loop10 Let_def del: nat_numeral)
qed

end
